theory Spec2Isabelle
  imports Main "HOL-Library.Sublist"
begin

section \<open>The Go library functions sunrise calls\<close>

text \<open>
  sunrise (\<^verbatim>\<open>main.go\<close>) watches the log of Sunshine for the line that tells of a
  missing monitor and wakes the monitor when a new one is logged.  It is a small
  daemon around four library packages:
  \<^verbatim>\<open>strings\<close>, \<^verbatim>\<open>time\<close>, \<^verbatim>\<open>bufio\<close> and \<^verbatim>\<open>os\<close>.  The functions it calls are
  modelled here as executable HOL functions.  A Go \<^verbatim>\<open>string\<close> is a byte sequence, a
  HOL \<open>string\<close>; all indices are byte indices.
\<close>

subsection \<open>Package strings\<close>

definition HasPrefix :: "string \<Rightarrow> string \<Rightarrow> bool" where
  \<comment> \<open>\<^verbatim>\<open>len(s) >= len(prefix) && s[:len(prefix)] == prefix\<close>\<close>
  "HasPrefix s pre = (length pre \<le> length s \<and> take (length pre) s = pre)"

text \<open>\<^verbatim>\<open>strings.Index(s, substr)\<close>: the byte index of the first instance of
  \<open>substr\<close> in \<open>s\<close>, or \<open>-1\<close>.  \<open>IndexFrom i\<close> searches the rest of the string that
  starts at index \<open>i\<close>.\<close>

fun IndexFrom :: "nat \<Rightarrow> string \<Rightarrow> string \<Rightarrow> int" where
  "IndexFrom i [] substr = (if substr = [] then int i else - 1)"
| "IndexFrom i (c # cs) substr =
     (if HasPrefix (c # cs) substr then int i else IndexFrom (Suc i) cs substr)"

definition Index :: "string \<Rightarrow> string \<Rightarrow> int" where
  "Index s substr = IndexFrom 0 s substr"

definition Contains :: "string \<Rightarrow> string \<Rightarrow> bool" where
  \<comment> \<open>\<^verbatim>\<open>return Index(s, substr) >= 0\<close>\<close>
  "Contains s substr = (0 \<le> Index s substr)"

lemma IndexFrom_range:
  "IndexFrom i s substr = - 1 \<or>
   (int i \<le> IndexFrom i s substr \<and> IndexFrom i s substr + int (length substr) \<le> int i + int (length s))"
proof (induction s arbitrary: i)
  case Nil
  show ?case by simp
next
  case (Cons c cs)
  show ?case
  proof (cases "HasPrefix (c # cs) substr")
    case True
    then show ?thesis by (simp add: HasPrefix_def)
  next
    case False
    then show ?thesis using Cons.IH [of "Suc i"] by auto
  qed
qed

lemma Index_range:
  "0 \<le> Index s substr \<Longrightarrow> nat (Index s substr) + length substr \<le> length s"
  using IndexFrom_range [of 0 s substr] by (auto simp: Index_def)

text \<open>\<^verbatim>\<open>strings.Split(s, sep)\<close>: the substrings of \<open>s\<close> between the instances of
  \<open>sep\<close>, found left to right without overlap.  With an empty separator Go splits
  after each UTF-8 sequence; the model splits after each byte there, which is the
  same on ASCII text (sunrise only splits on \<^verbatim>\<open>" "\<close>).\<close>

function Split :: "string \<Rightarrow> string \<Rightarrow> string list" where
  "Split s sep =
     (if sep = [] then map (\<lambda>c. [c]) s
      else if Index s sep < 0 then [s]
      else take (nat (Index s sep)) s # Split (drop (nat (Index s sep) + length sep) s) sep)"
  by pat_completeness auto
termination
proof (relation "measure (\<lambda>(s, sep). length s)")
  show "wf (measure (\<lambda>(s, sep). length s))" by simp
next
  fix s sep :: string
  assume "sep \<noteq> []" and "\<not> Index s sep < 0"
  then have "nat (Index s sep) + length sep \<le> length s" and "0 < length sep"
    using Index_range [of s sep] by auto
  then have "length s - (nat (Index s sep) + length sep) < length s"
    by arith
  then show "((drop (nat (Index s sep) + length sep) s, sep), (s, sep))
      \<in> measure (\<lambda>(s, sep). length s)"
    by simp
qed

declare Split.simps [simp del]

subsection \<open>Package time\<close>

text \<open>
  A \<^verbatim>\<open>time.Time\<close> without a monotonic reading is an instant: seconds and nanoseconds
  since January 1, year 1, 00:00:00 UTC.  The model keeps the instant as one
  integer, in nanoseconds.  The zero value \<^verbatim>\<open>time.Time{}\<close> is that origin;
  \<^verbatim>\<open>IsZero\<close> and \<^verbatim>\<open>After\<close> read the instant only.
\<close>

type_synonym Time = int

definition zeroTime :: Time where
  "zeroTime = 0"

definition IsZero :: "Time \<Rightarrow> bool" where
  "IsZero t = (t = 0)"

definition After :: "Time \<Rightarrow> Time \<Rightarrow> bool" where
  "After t u = (u < t)"

text \<open>A \<^verbatim>\<open>*time.Location\<close> is its \<^verbatim>\<open>lookup\<close>: for a Unix time in seconds, the zone's
  offset east of UTC in seconds and the Unix times at which that zone starts and
  ends.\<close>

type_synonym Location = "int \<Rightarrow> int \<times> int \<times> int"

definition UTC :: Location where
  "UTC = (\<lambda>_. (0, - (2 ^ 63), 2 ^ 63 - 1))"

definition isLeap :: "int \<Rightarrow> bool" where
  "isLeap y = (y mod 4 = 0 \<and> (y mod 100 \<noteq> 0 \<or> y mod 400 = 0))"

definition daysBefore :: "int list" where
  \<comment> \<open>the days of a non-leap year before each month ends; \<open>daysBefore ! m\<close> for month \<open>m\<close>\<close>
  "daysBefore = [0, 31, 59, 90, 120, 151, 181, 212, 243, 273, 304, 334, 365]"

definition daysIn :: "int \<Rightarrow> int \<Rightarrow> int" where
  "daysIn m y =
     (if m = 2 \<and> isLeap y then 29 else daysBefore ! nat m - daysBefore ! nat (m - 1))"

definition daysSinceYear1 :: "int \<Rightarrow> int" where
  \<comment> \<open>the days from January 1 of year 1 to January 1 of year \<open>y\<close> (proleptic Gregorian)\<close>
  "daysSinceYear1 y = 365 * (y - 1) + (y - 1) div 4 - (y - 1) div 100 + (y - 1) div 400"

definition unixToYear1 :: int where
  \<comment> \<open>seconds from January 1, year 1 to January 1, 1970\<close>
  "unixToYear1 = 62135596800"

text \<open>\<^verbatim>\<open>time.Date(year, month, day, hour, min, sec, nsec, loc)\<close> for fields already in
  range (the parser below checks them before it calls \<open>Date\<close>, so Go's
  normalisation of overflowing fields changes nothing).  The wall clock is first
  read as UTC, then corrected by the offset the location gives, looked up a
  second time when the corrected time falls outside the zone first found.\<close>

definition Date :: "int \<Rightarrow> int \<Rightarrow> int \<Rightarrow> int \<Rightarrow> int \<Rightarrow> int \<Rightarrow> int \<Rightarrow> Location \<Rightarrow> Time" where
  "Date y m d hh mm ss ns loc =
     (let days = daysSinceYear1 y + daysBefore ! nat (m - 1)
            + (if isLeap y \<and> 3 \<le> m then 1 else 0) + (d - 1);
          unix = days * 86400 + hh * 3600 + mm * 60 + ss - unixToYear1;
          (offset, start, stop) = loc unix;
          unix' =
            (if offset \<noteq> 0 then
               (let utc = unix - offset;
                    offset' = (if utc < start \<or> stop \<le> utc then fst (loc utc) else offset)
                in unix - offset')
             else unix)
      in (unix' + unixToYear1) * 1000000000 + ns)"

subsection \<open>Errors\<close>

text \<open>The \<^verbatim>\<open>error\<close> values that reach sunrise.  A runtime panic is not an error value:
  a function that can panic returns an \<open>option\<close>, and \<open>None\<close> is the panic.\<close>

datatype goError =
    ErrMissingBrackets
      \<comment> \<open>\<^verbatim>\<open>fmt.Errorf("sunshine log line missing timestamp brackets")\<close>\<close>
  | ParseError string string
      \<comment> \<open>\<^verbatim>\<open>*time.ParseError\<close>: the layout element that failed, and the message\<close>
  | PathError string
      \<comment> \<open>\<^verbatim>\<open>*fs.PathError\<close> of \<^verbatim>\<open>os.Stat\<close>, \<^verbatim>\<open>os.Open\<close> or a read of the file\<close>
  | ErrTooLong
      \<comment> \<open>\<^verbatim>\<open>bufio.ErrTooLong\<close>\<close>

subsection \<open>Package time: parsing with the layout of the Sunshine log\<close>

text \<open>
  \<^verbatim>\<open>time.ParseInLocation(layout, value, loc)\<close> walks the layout one element at a time:
  it skips the literal text before the element, then reads the element from the
  value.  The layout \<^verbatim>\<open>"2006-01-02 15:04:05.000"\<close> has seven elements; the reading of
  each is this package's code for that element.
\<close>

definition isDigit :: "string \<Rightarrow> nat \<Rightarrow> bool" where
  "isDigit s i = (i < length s \<and> 48 \<le> (of_char (s ! i) :: nat) \<and> (of_char (s ! i) :: nat) \<le> 57)"

definition digitVal :: "char \<Rightarrow> int" where
  \<comment> \<open>\<^verbatim>\<open>int(c - '0')\<close> of a digit\<close>
  "digitVal c = int (of_char c) - 48"

definition getnum :: "string \<Rightarrow> bool \<Rightarrow> (int \<times> string) option" where
  \<comment> \<open>a one- or two-digit number; with \<open>fixed\<close>, two digits.  \<open>None\<close> is \<^verbatim>\<open>errBad\<close>.\<close>
  "getnum s fixed =
     (if \<not> isDigit s 0 then None
      else if \<not> isDigit s 1 then (if fixed then None else Some (digitVal (s ! 0), drop 1 s))
      else Some (digitVal (s ! 0) * 10 + digitVal (s ! 1), drop 2 s))"

fun leadingInt :: "int \<Rightarrow> string \<Rightarrow> (int \<times> string) option" where
  \<comment> \<open>the leading digits of the string, as a number added to \<open>x\<close>, and the rest;
      \<open>None\<close> is \<^verbatim>\<open>errLeadingInt\<close> (a number beyond \<open>2^63\<close>)\<close>
  "leadingInt x [] = Some (x, [])"
| "leadingInt x (c # cs) =
     (if \<not> isDigit [c] 0 then Some (x, c # cs)
      else if 2 ^ 63 div 10 < x then None
      else if 2 ^ 63 < x * 10 + digitVal c then None
      else leadingInt (x * 10 + digitVal c) cs)"

definition atoi :: "string \<Rightarrow> int option" where
  \<comment> \<open>an optional sign and digits, nothing else.  \<open>None\<close> is \<^verbatim>\<open>errAtoi\<close>.\<close>
  "atoi s =
     (let signed = (s \<noteq> [] \<and> (hd s = CHR ''-'' \<or> hd s = CHR ''+''));
          neg = (s \<noteq> [] \<and> hd s = CHR ''-'')
      in case leadingInt 0 (if signed then tl s else s) of
           None \<Rightarrow> None
         | Some (q, rem) \<Rightarrow> if rem \<noteq> [] then None else Some (if neg then - q else q))"

definition cutspace :: "string \<Rightarrow> string" where
  "cutspace s = dropWhile (\<lambda>c. c = CHR '' '') s"

text \<open>\<^verbatim>\<open>skip(value, prefix)\<close>: the value after the literal text \<open>prefix\<close>.  A space in
  the prefix stands for any run of spaces in the value, also for none at its end.
  \<open>None\<close> is \<^verbatim>\<open>errBad\<close>.\<close>

function skip :: "string \<Rightarrow> string \<Rightarrow> string option" where
  "skip v [] = Some v"
| "skip v (p # ps) =
     (if p = CHR '' '' then
        (if v \<noteq> [] \<and> hd v \<noteq> CHR '' '' then None
         else skip (cutspace v) (cutspace (p # ps)))
      else if v = [] \<or> hd v \<noteq> p then None
      else skip (tl v) ps)"
  by pat_completeness auto
termination
  by (relation "measure (\<lambda>(v, p). length p)")
    (auto simp: cutspace_def le_imp_less_Suc length_dropWhile_le)

definition commaOrPeriod :: "char \<Rightarrow> bool" where
  "commaOrPeriod c = (c = CHR ''.'' \<or> c = CHR '','')"

text \<open>What reading one layout element gives: \<^verbatim>\<open>errBad\<close>, a range error with the
  name of the field, or the value read.\<close>

datatype 'a elem = Bad | OutOfRange string | Got 'a

definition parseNanoseconds :: "string \<Rightarrow> nat \<Rightarrow> int elem" where
  \<comment> \<open>the caller has checked \<open>nbytes \<le> length v\<close>, and \<open>1 \<le> nbytes\<close>\<close>
  "parseNanoseconds v nbytes =
     (if \<not> commaOrPeriod (v ! 0) then Bad
      else
        (let n = (if 10 < nbytes then 10 else nbytes)
         in case atoi (take (n - 1) (drop 1 v)) of
              None \<Rightarrow> Bad
            | Some ns \<Rightarrow>
                if ns < 0 then OutOfRange ''fractional second''
                else Got (ns * 10 ^ (10 - n))))"

record fields =
  year :: int
  month :: int
  day :: int
  hour :: int
  minute :: int
  sec :: int
  nsec :: int

definition noFields :: fields where
  \<comment> \<open>the variables of \<^verbatim>\<open>parse\<close> before the first element is read\<close>
  "noFields = \<lparr>year = 0, month = - 1, day = - 1, hour = 0, minute = 0, sec = 0, nsec = 0\<rparr>"

datatype std =
    stdLongYear | stdZeroMonth | stdZeroDay | stdHour | stdZeroMinute | stdZeroSecond
  | stdFracSecond0 nat

fun parseStd :: "std \<Rightarrow> string \<Rightarrow> fields \<Rightarrow> (string \<times> fields) elem" where
  "parseStd stdLongYear v f =
     (if length v < 4 \<or> \<not> isDigit v 0 then Bad
      else case atoi (take 4 v) of
             None \<Rightarrow> Bad
           | Some y \<Rightarrow> Got (drop 4 v, f\<lparr>year := y\<rparr>))"
| "parseStd stdZeroMonth v f =
     (case getnum v True of
        None \<Rightarrow> Bad
      | Some (m, v') \<Rightarrow>
          if m \<le> 0 \<or> 12 < m then OutOfRange ''month'' else Got (v', f\<lparr>month := m\<rparr>))"
| "parseStd stdZeroDay v f =
     (case getnum v True of
        None \<Rightarrow> Bad
      | Some (d, v') \<Rightarrow> Got (v', f\<lparr>day := d\<rparr>))"
| "parseStd stdHour v f =
     (case getnum v False of
        None \<Rightarrow> Bad
      | Some (h, v') \<Rightarrow>
          if h < 0 \<or> 24 \<le> h then OutOfRange ''hour'' else Got (v', f\<lparr>hour := h\<rparr>))"
| "parseStd stdZeroMinute v f =
     (case getnum v True of
        None \<Rightarrow> Bad
      | Some (m, v') \<Rightarrow>
          if m < 0 \<or> 60 \<le> m then OutOfRange ''minute'' else Got (v', f\<lparr>minute := m\<rparr>))"
| "parseStd stdZeroSecond v f =
     (case getnum v True of
        None \<Rightarrow> Bad
      | Some (s, v') \<Rightarrow>
          if s < 0 \<or> 60 \<le> s then OutOfRange ''second'' else Got (v', f\<lparr>sec := s\<rparr>))"
| "parseStd (stdFracSecond0 digits) v f =
     (if length v < 1 + digits then Bad
      else case parseNanoseconds v (1 + digits) of
             Bad \<Rightarrow> Bad
           | OutOfRange r \<Rightarrow> OutOfRange r
           | Got ns \<Rightarrow> Got (drop (1 + digits) v, f\<lparr>nsec := ns\<rparr>))"

text \<open>A layout, cut as \<^verbatim>\<open>nextStdChunk\<close> cuts it: for each element the literal text
  before it, the element's own text, and the element.\<close>

type_synonym layout = "(string \<times> string \<times> std) list"

definition sunshineLayout :: layout where
  \<comment> \<open>\<^verbatim>\<open>"2006-01-02 15:04:05.000"\<close>\<close>
  "sunshineLayout =
     [('''', ''2006'', stdLongYear), (''-'', ''01'', stdZeroMonth), (''-'', ''02'', stdZeroDay),
      ('' '', ''15'', stdHour), ('':'', ''04'', stdZeroMinute), ('':'', ''05'', stdZeroSecond),
      ('''', ''.000'', stdFracSecond0 3)]"

text \<open>\<^verbatim>\<open>quote(s)\<close> of package \<^verbatim>\<open>time\<close>: the string between double quotes, a
  backslash before a double quote or a backslash, and \<^verbatim>\<open>\xHH\<close> for every byte
  below \<^verbatim>\<open>0x20\<close> or from \<^verbatim>\<open>0x80\<close> on.\<close>

definition lowerhex :: "nat \<Rightarrow> char" where
  "lowerhex n = ''0123456789abcdef'' ! n"

definition quoteByte :: "char \<Rightarrow> string" where
  "quoteByte c =
     (if 128 \<le> (of_char c :: nat) \<or> (of_char c :: nat) < 32
      then [CHR 0x5C, CHR ''x'', lowerhex (of_char c div 16), lowerhex (of_char c mod 16)]
      else if c = CHR 0x22 \<or> c = CHR 0x5C then [CHR 0x5C, c]
      else [c])"

definition quote :: "string \<Rightarrow> string" where
  "quote s = [CHR 0x22] @ concat (map quoteByte s) @ [CHR 0x22]"

fun parseLoop :: "layout \<Rightarrow> string \<Rightarrow> fields \<Rightarrow> goError + fields" where
  "parseLoop [] v f =
     (if v \<noteq> [] then Inl (ParseError '''' ('': extra text: '' @ quote v)) else Inr f)"
| "parseLoop ((pre, stdstr, st) # rest) v f =
     (case skip v pre of
        None \<Rightarrow> Inl (ParseError pre '''')
      | Some v' \<Rightarrow>
          (case parseStd st v' f of
             Bad \<Rightarrow> Inl (ParseError stdstr '''')
           | OutOfRange r \<Rightarrow> Inl (ParseError stdstr ('': '' @ r @ '' out of range''))
           | Got (v'', f') \<Rightarrow> parseLoop rest v'' f'))"

definition ParseInLocation :: "layout \<Rightarrow> string \<Rightarrow> Location \<Rightarrow> goError + Time" where
  "ParseInLocation lay v loc =
     (case parseLoop lay v noFields of
        Inl e \<Rightarrow> Inl e
      | Inr f \<Rightarrow>
          if day f < 1 \<or> daysIn (month f) (year f) < day f
          then Inl (ParseError '''' '': day out of range'')
          else Inr (Date (year f) (month f) (day f) (hour f) (minute f) (sec f) (nsec f) loc))"

subsection \<open>Package bufio: a Scanner that splits into lines\<close>

text \<open>
  \<^verbatim>\<open>bufio.NewScanner(f)\<close> with the default split function \<^verbatim>\<open>ScanLines\<close>.  Each
  \<^verbatim>\<open>Scan()\<close> yields the next line without its end-of-line marker (\<^verbatim>\<open>\n\<close>, or
  \<^verbatim>\<open>\r\n\<close>); the last line needs no newline, and no empty line is yielded at the
  end of the data.  The scanner's buffer holds \<^verbatim>\<open>MaxScanTokenSize\<close> bytes: a line of
  that many bytes or more before its newline stops the scan with \<^verbatim>\<open>ErrTooLong\<close>.
  \<open>scanTokens data rerr\<close> is the list of lines the successive calls of \<^verbatim>\<open>Scan()\<close>
  yield on a file whose reads deliver \<open>data\<close> and then fail with \<open>rerr\<close>
  (\<open>None\<close> is \<^verbatim>\<open>io.EOF\<close>), paired with what \<^verbatim>\<open>Err()\<close> returns afterwards.
\<close>

definition MaxScanTokenSize :: int where
  "MaxScanTokenSize = 64 * 1024"

definition dropCR :: "string \<Rightarrow> string" where
  "dropCR data = (if data \<noteq> [] \<and> last data = CHR 0x0D then butlast data else data)"

definition firstLine :: "string \<Rightarrow> string" where
  \<comment> \<open>the bytes before the first newline\<close>
  "firstLine data = takeWhile (\<lambda>c. c \<noteq> CHR 0x0A) data"

function scanTokens :: "string \<Rightarrow> goError option \<Rightarrow> string list \<times> goError option" where
  "scanTokens data rerr =
     (if MaxScanTokenSize \<le> int (length (firstLine data)) then ([], Some ErrTooLong)
      else if length (firstLine data) < length data then
        (case scanTokens (drop (length (firstLine data) + 1) data) rerr of
           (toks, e) \<Rightarrow> (dropCR (firstLine data) # toks, e))
      else if data = [] then ([], rerr)
      else ([dropCR data], rerr))"
  by pat_completeness auto
termination
  by (relation "measure (\<lambda>(data, rerr). length data)") auto

declare scanTokens.simps [simp del]

subsection \<open>Package os: the log file as one tick finds it\<close>

text \<open>What the three accesses of one tick return: \<^verbatim>\<open>os.Stat\<close> (its \<^verbatim>\<open>Size()\<close>),
  \<^verbatim>\<open>os.Open\<close> with the bytes the reads then deliver, and the error of the read
  that ends them (\<open>None\<close> is \<^verbatim>\<open>io.EOF\<close>).\<close>

record logFile =
  statSize :: "goError + int"
  opened :: "goError + string"
  readErr :: "goError option"

subsection \<open>Slices\<close>

text \<open>Indexing and slicing panic out of range; \<open>None\<close> is the panic.\<close>

definition elemAt :: "'a list \<Rightarrow> int \<Rightarrow> 'a option" where
  \<comment> \<open>\<^verbatim>\<open>a[i]\<close>\<close>
  "elemAt a i = (if 0 \<le> i \<and> i < int (length a) then Some (a ! nat i) else None)"

definition sliceFrom :: "'a list \<Rightarrow> int \<Rightarrow> 'a list option" where
  \<comment> \<open>\<^verbatim>\<open>a[lo:]\<close>\<close>
  "sliceFrom a lo = (if 0 \<le> lo \<and> lo \<le> int (length a) then Some (drop (nat lo) a) else None)"

definition slice :: "'a list \<Rightarrow> int \<Rightarrow> int \<Rightarrow> 'a list option" where
  \<comment> \<open>\<^verbatim>\<open>a[lo:hi]\<close>\<close>
  "slice a lo hi =
     (if 0 \<le> lo \<and> lo \<le> hi \<and> hi \<le> int (length a)
      then Some (take (nat hi - nat lo) (drop (nat lo) a)) else None)"

section \<open>sunrise\<close>

text \<open>
  The program keeps three package variables: the configuration \<^verbatim>\<open>c\<close>, read once
  from the TOML file, and the two variables the tracker updates,
  \<^verbatim>\<open>lastLogSize\<close> and \<^verbatim>\<open>lastMonitorMissingTime\<close>.  The model passes the
  configuration and the process's \<^verbatim>\<open>time.Local\<close> as arguments, and threads the two
  tracking variables through each call as a record.  Log output is left out.
\<close>

record config =
  SunriseCheckSeconds :: int
  SunshineLogPath :: string
  MonitorIsOffLogLine :: string
  WakeMonitorSleepSeconds :: int
  StopSunshineCommand :: string
  StartSunshineCommand :: string
  WakeMonitorCommand :: string
  EnableSunshineRestart :: bool

record globals =
  lastLogSize :: int
  lastMonitorMissingTime :: Time

definition initialGlobals :: globals where
  \<comment> \<open>the zero values Go gives the two variables\<close>
  "initialGlobals = \<lparr>lastLogSize = 0, lastMonitorMissingTime = zeroTime\<rparr>"

definition resetMonitorTracking :: "globals \<Rightarrow> globals" where
  "resetMonitorTracking g = g\<lparr>lastMonitorMissingTime := zeroTime\<rparr>"

definition parseSunshineTimestamp :: "Location \<Rightarrow> string \<Rightarrow> (goError + Time) option" where
  "parseSunshineTimestamp loc line =
     (let endIdx = Index line '']''
      in if \<not> HasPrefix line ''['' \<or> endIdx = - 1 then Some (Inl ErrMissingBrackets)
         else case slice line 1 endIdx of
                None \<Rightarrow> None
              | Some timePortion \<Rightarrow> Some (ParseInLocation sunshineLayout timePortion loc))"

text \<open>The \<^verbatim>\<open>for scanner.Scan()\<close> loop of \<^verbatim>\<open>isMonitorMissing\<close>, over the lines the
  scanner yields, from the current value of \<^verbatim>\<open>latestOccurrence\<close>.\<close>

fun walkLog :: "config \<Rightarrow> Location \<Rightarrow> Time \<Rightarrow> string list \<Rightarrow> Time option" where
  "walkLog c loc latestOccurrence [] = Some latestOccurrence"
| "walkLog c loc latestOccurrence (line # rest) =
     (if \<not> Contains line (MonitorIsOffLogLine c) then walkLog c loc latestOccurrence rest
      else case parseSunshineTimestamp loc line of
             None \<Rightarrow> None
           | Some (Inl err) \<Rightarrow> walkLog c loc latestOccurrence rest
           | Some (Inr entryTime) \<Rightarrow>
               walkLog c loc
                 (if After entryTime latestOccurrence then entryTime else latestOccurrence) rest)"

text \<open>\<^verbatim>\<open>isMonitorMissing\<close> returns \<^verbatim>\<open>(monitorIsMissing bool, err error)\<close>; the model
  returns the tracking variables as the call leaves them with it.\<close>

definition isMonitorMissing ::
  "config \<Rightarrow> Location \<Rightarrow> logFile \<Rightarrow> globals \<Rightarrow> (globals \<times> bool \<times> goError option) option" where
  "isMonitorMissing c loc file g =
     (case statSize file of
        Inl err \<Rightarrow> Some (g, False, Some err)
      | Inr logSize \<Rightarrow>
          (let g1 = (if logSize < lastLogSize g then resetMonitorTracking g else g);
               g2 = g1\<lparr>lastLogSize := logSize\<rparr>
           in case opened file of
                Inl err \<Rightarrow> Some (g2, False, Some err)
              | Inr content \<Rightarrow>
                  (case scanTokens content (readErr file) of
                     (lines, scanErr) \<Rightarrow>
                       (case walkLog c loc zeroTime lines of
                          None \<Rightarrow> None
                        | Some latestOccurrence \<Rightarrow>
                            (case scanErr of
                               Some err \<Rightarrow> Some (g2, False, Some err)
                             | None \<Rightarrow>
                                 if IsZero latestOccurrence
                                 then Some (resetMonitorTracking g2, False, None)
                                 else if IsZero (lastMonitorMissingTime g2)
                                         \<or> After latestOccurrence (lastMonitorMissingTime g2)
                                 then Some (g2\<lparr>lastMonitorMissingTime := latestOccurrence\<rparr>,
                                            True, None)
                                 else Some (g2, False, None))))))"

text \<open>The loop of \<^verbatim>\<open>main\<close>, one log file per tick.  An error of
  \<^verbatim>\<open>isMonitorMissing\<close> is fatal (\<^verbatim>\<open>log.Fatal\<close>) and a panic ends the process, so
  either ends the loop.  Where \<^verbatim>\<open>main\<close> runs \<^verbatim>\<open>wakeMonitor\<close>, the model records the
  timestamp that is then in \<^verbatim>\<open>lastMonitorMissingTime\<close>, the one the tick logs as
  the last Sunshine error; the commands themselves do not touch the tracking
  variables.\<close>

fun mainLoop :: "config \<Rightarrow> Location \<Rightarrow> globals \<Rightarrow> logFile list \<Rightarrow> Time list" where
  "mainLoop c loc g [] = []"
| "mainLoop c loc g (file # files) =
     (case isMonitorMissing c loc file g of
        None \<Rightarrow> []
      | Some (g', monitorIsOff, err) \<Rightarrow>
          if err \<noteq> None then []
          else (if monitorIsOff then [lastMonitorMissingTime g'] else [])
               @ mainLoop c loc g' files)"

text \<open>\<^verbatim>\<open>wakeMonitor\<close>, \<^verbatim>\<open>stopSunshine\<close> and \<^verbatim>\<open>startSunshine\<close> up to the call of
  \<^verbatim>\<open>exec.Command\<close>: the program name and the arguments handed to it.  Running the
  command is the operating system's part.\<close>

definition commandAndArgs :: "string list \<Rightarrow> (string \<times> string list) option" where
  \<comment> \<open>\<^verbatim>\<open>exec.Command(a[0], a[1:]...)\<close>\<close>
  "commandAndArgs a =
     (case elemAt a 0 of
        None \<Rightarrow> None
      | Some name \<Rightarrow> (case sliceFrom a 1 of None \<Rightarrow> None | Some args \<Rightarrow> Some (name, args)))"

definition wakeMonitor :: "config \<Rightarrow> (string \<times> string list) option" where
  "wakeMonitor c = commandAndArgs (Split (WakeMonitorCommand c) '' '')"

definition stopSunshine :: "config \<Rightarrow> (string \<times> string list) option" where
  "stopSunshine c = commandAndArgs (Split (StopSunshineCommand c) '' '')"

definition startSunshine :: "config \<Rightarrow> (string \<times> string list) option" where
  "startSunshine c = commandAndArgs (Split (StartSunshineCommand c) '' '')"

section \<open>What the specification talks about\<close>

text \<open>The specification describes the tracker through a few notions that the
  program does not name.  They are defined here from the specification's wording,
  to be compared with what the program computes.\<close>

definition entryTimes :: "config \<Rightarrow> Location \<Rightarrow> string list \<Rightarrow> Time list" where
  \<comment> \<open>the timestamps of the lines that contain the configured trigger substring and
      whose timestamp parses, in the order of the lines\<close>
  "entryTimes c loc lines =
     concat (map (\<lambda>line.
       if Contains line (MonitorIsOffLogLine c)
       then (case parseSunshineTimestamp loc line of Some (Inr t) \<Rightarrow> [t] | _ \<Rightarrow> [])
       else []) lines)"

definition allTimes :: "Location \<Rightarrow> string list \<Rightarrow> Time list" where
  \<comment> \<open>the timestamps of all lines whose timestamp parses\<close>
  "allTimes loc lines =
     concat (map (\<lambda>line.
       case parseSunshineTimestamp loc line of Some (Inr t) \<Rightarrow> [t] | _ \<Rightarrow> []) lines)"

definition logLines :: "logFile \<Rightarrow> string list" where
  \<comment> \<open>the lines of the log as a tick reads them\<close>
  "logLines file =
     (case opened file of
        Inl err \<Rightarrow> []
      | Inr content \<Rightarrow> fst (scanTokens content (readErr file)))"

definition grows :: "logFile \<Rightarrow> logFile \<Rightarrow> bool" where
  \<comment> \<open>from one tick to the next the log was not rotated and lines were only added:
      the size did not shrink and the earlier lines are the first of the later ones\<close>
  "grows a b =
     (case (statSize a, statSize b) of
        (Inr sa, Inr sb) \<Rightarrow> sa \<le> sb \<and> prefix (logLines a) (logLines b)
      | _ \<Rightarrow> False)"

definition timePortion :: "string \<Rightarrow> string" where
  \<comment> \<open>the bracketed substring: the text between the leading bracket and the first
      closing one, for a line that has both\<close>
  "timePortion line = take (nat (Index line '']'') - 1) (drop 1 line)"

text \<open>The pattern \<^verbatim>\<open>YYYY-MM-DD HH:MM:SS.mmm\<close> read strictly: 23 bytes, digits where the
  letters stand, the separators as written, a month from 01 to 12, a day of that
  month, an hour below 24, minute and second below 60.\<close>

definition digitChar :: "char \<Rightarrow> bool" where
  \<comment> \<open>an ASCII digit\<close>
  "digitChar c = (48 \<le> (of_char c :: nat) \<and> (of_char c :: nat) \<le> 57)"

definition num2 :: "string \<Rightarrow> nat \<Rightarrow> int" where
  \<comment> \<open>the two-digit number at a position\<close>
  "num2 s i = digitVal (s ! i) * 10 + digitVal (s ! (i + 1))"

definition num4 :: "string \<Rightarrow> nat \<Rightarrow> int" where
  "num4 s i = num2 s i * 100 + num2 s (i + 2)"

definition matchesPattern :: "string \<Rightarrow> bool" where
  "matchesPattern s =
     (length s = 23
      \<and> list_all (isDigit s) [0, 1, 2, 3, 5, 6, 8, 9, 11, 12, 14, 15, 17, 18, 20, 21, 22]
      \<and> s ! 4 = CHR ''-'' \<and> s ! 7 = CHR ''-'' \<and> s ! 10 = CHR '' ''
      \<and> s ! 13 = CHR '':'' \<and> s ! 16 = CHR '':'' \<and> s ! 19 = CHR ''.''
      \<and> 1 \<le> num2 s 5 \<and> num2 s 5 \<le> 12
      \<and> 1 \<le> num2 s 8 \<and> num2 s 8 \<le> daysIn (num2 s 5) (num4 s 0)
      \<and> num2 s 11 < 24 \<and> num2 s 14 < 60 \<and> num2 s 17 < 60)"

text \<open>The same pattern as \<^verbatim>\<open>time.Parse\<close> reads it with the layout
  \<^verbatim>\<open>2006-01-02 15:04:05.000\<close>: a year of four digits, a month and a day of two,
  one or more spaces, an hour of one or two digits, minute and second of two, a
  period or a comma, and three bytes of milliseconds, which are three digits, or
  a plus sign and two digits, or a minus sign and two digits of value zero; the
  same ranges as above, and nothing before or after.\<close>

definition digits :: "nat \<Rightarrow> string \<Rightarrow> bool" where
  "digits n x = (length x = n \<and> list_all digitChar x)"

definition number :: "string \<Rightarrow> int" where
  \<comment> \<open>the decimal value of a string of digits\<close>
  "number x = foldl (\<lambda>a c. a * 10 + digitVal c) 0 x"

definition spaces :: "string \<Rightarrow> bool" where
  "spaces x = (x \<noteq> [] \<and> list_all (\<lambda>c. c = CHR '' '') x)"

definition millis :: "string \<Rightarrow> bool" where
  "millis x =
     (length x = 3
      \<and> (list_all digitChar x
          \<or> (hd x = CHR ''+'' \<and> list_all digitChar (tl x))
          \<or> (hd x = CHR ''-'' \<and> list_all digitChar (tl x) \<and> number (tl x) = 0)))"

definition layoutAccepts :: "string \<Rightarrow> bool" where
  "layoutAccepts s =
     (\<exists>y mo d sp h mi se p ms.
        s = y @ ''-'' @ mo @ ''-'' @ d @ sp @ h @ '':'' @ mi @ '':'' @ se @ [p] @ ms
        \<and> digits 4 y \<and> digits 2 mo \<and> digits 2 d \<and> spaces sp
        \<and> (digits 1 h \<or> digits 2 h) \<and> digits 2 mi \<and> digits 2 se
        \<and> (p = CHR ''.'' \<or> p = CHR '','') \<and> millis ms
        \<and> 1 \<le> number mo \<and> number mo \<le> 12
        \<and> 1 \<le> number d \<and> number d \<le> daysIn (number mo) (number y)
        \<and> number h < 24 \<and> number mi < 60 \<and> number se < 60)"

section \<open>Examples\<close>

text \<open>A configuration, some log lines and some states of a log file, used to evaluate
  the model.\<close>

definition exampleConfig :: config where
  "exampleConfig =
     \<lparr>SunriseCheckSeconds = 5, SunshineLogPath = ''/home/user/.config/sunshine/sunshine.log'',
      MonitorIsOffLogLine = ''display not found'', WakeMonitorSleepSeconds = 5,
      StopSunshineCommand = ''killall sunshine'', StartSunshineCommand = ''sunshine'',
      WakeMonitorCommand = ''kscreen-doctor --dpms on'', EnableSunshineRestart = False\<rparr>"

definition line1 :: string where
  "line1 = ''[2024-01-01 10:00:00.000] Error: display not found''"

definition line2 :: string where
  "line2 = ''[2024-01-01 10:00:05.250] Error: display not found''"

definition lineInfo :: string where
  "lineInfo = ''[2024-01-01 10:00:01.000] Info: client connected''"

definition lineBad :: string where
  "lineBad = ''Error: display not found''"

definition lineYear0 :: string where
  "lineYear0 = ''[0000-06-15 12:00:00.000] Error: display not found''"

definition lineNoOpen :: string where
  "lineNoOpen = ''2024-01-01 10:00:00.000] Error: display not found''"

definition lineNoClose :: string where
  "lineNoClose = ''[2024-01-01 10:00:00.000 Error: display not found''"

definition lineShortHour :: string where
  "lineShortHour = ''[2024-01-01 1:00:00.000] Error: display not found''"

definition lineMonth13 :: string where
  "lineMonth13 = ''[2024-13-01 10:00:00.000] Error: display not found''"

definition nl :: string where
  "nl = [CHR 0x0A]"

definition log1 :: logFile where
  "log1 = \<lparr>statSize = Inr 51, opened = Inr (line1 @ nl), readErr = None\<rparr>"

definition log2 :: logFile where
  "log2 = \<lparr>statSize = Inr 176,
            opened = Inr (line1 @ nl @ lineInfo @ nl @ lineBad @ nl @ line2 @ nl),
            readErr = None\<rparr>"

definition logQuiet :: logFile where
  "logQuiet = \<lparr>statSize = Inr 74, opened = Inr (lineInfo @ nl @ lineBad @ nl), readErr = None\<rparr>"

definition logUnreadable :: logFile where
  "logUnreadable = \<lparr>statSize = Inr 51, opened = Inl (PathError ''permission denied''),
                     readErr = None\<rparr>"

definition logYear0 :: logFile where
  "logYear0 = \<lparr>statSize = Inr 51, opened = Inr (lineYear0 @ nl), readErr = None\<rparr>"

definition logGrown :: logFile where
  "logGrown = \<lparr>statSize = Inr 100, opened = Inr (line1 @ nl @ lineInfo @ nl), readErr = None\<rparr>"

definition emptyTriggerConfig :: config where
  "emptyTriggerConfig = exampleConfig\<lparr>MonitorIsOffLogLine := ''''\<rparr>"

section \<open>Properties of the library functions\<close>

lemma HasPrefix_prefix: "HasPrefix s pre = prefix pre s"
  by (auto simp: HasPrefix_def prefix_def) (metis append_take_drop_id)

lemma IndexFrom_nonneg_iff: "0 \<le> IndexFrom i s substr \<longleftrightarrow> sublist substr s"
proof (induction s arbitrary: i)
  case Nil
  show ?case by simp
next
  case (Cons c cs)
  show ?case using Cons.IH [of "Suc i"]
    by (simp add: sublist_Cons_right HasPrefix_prefix)
qed

lemma Contains_sublist: "Contains s substr \<longleftrightarrow> sublist substr s"
  by (simp add: Contains_def Index_def IndexFrom_nonneg_iff)

lemma Contains_empty: "Contains s []"
  by (simp add: Contains_sublist)

lemma Index_cases: "Index s substr = - 1 \<or> 0 \<le> Index s substr"
  using IndexFrom_range [of 0 s substr] by (auto simp: Index_def)

lemma Index_zero: "Index s substr = 0 \<Longrightarrow> HasPrefix s substr"
proof (cases s)
  case Nil
  assume "Index s substr = 0"
  with Nil show ?thesis by (simp add: Index_def HasPrefix_def split: if_splits)
next
  case (Cons c cs)
  assume z: "Index s substr = 0"
  show ?thesis
  proof (rule ccontr)
    assume "\<not> HasPrefix s substr"
    with z Cons have "IndexFrom (Suc 0) cs substr = 0" by (simp add: Index_def)
    then show False using IndexFrom_range [of "Suc 0" cs substr] by simp
  qed
qed

lemma Split_nonempty: "Split s sep \<noteq> [] \<or> (sep = [] \<and> s = [])"
  by (subst Split.simps) simp

section \<open>Properties of the timestamp parser\<close>

text \<open>The slice \<^verbatim>\<open>line[1:endIdx]\<close> is always in range: a line that starts with
  \<^verbatim>\<open>[\<close> has its first \<^verbatim>\<open>]\<close> at index 1 or later.\<close>

lemma timePortion_in_range:
  assumes "HasPrefix line ''[''" and "Index line '']'' \<noteq> - 1"
  shows "1 \<le> Index line '']'' \<and> Index line '']'' \<le> int (length line)"
proof -
  have nonneg: "0 \<le> Index line '']''"
    using assms(2) Index_cases [of line "'']''"] by simp
  have "Index line '']'' \<noteq> 0"
  proof
    assume "Index line '']'' = 0"
    then have "HasPrefix line '']''" by (rule Index_zero)
    with assms(1) show False by (cases line) (auto simp: HasPrefix_def)
  qed
  moreover have "nat (Index line '']'') + 1 \<le> length line"
    using Index_range [OF nonneg] by simp
  ultimately show ?thesis using nonneg by linarith
qed

lemma parseSunshineTimestamp_returns:
  "parseSunshineTimestamp loc line =
     Some (if \<not> HasPrefix line ''['' \<or> Index line '']'' = - 1 then Inl ErrMissingBrackets
           else ParseInLocation sunshineLayout (timePortion line) loc)"
proof (cases "\<not> HasPrefix line ''['' \<or> Index line '']'' = - 1")
  case True
  then show ?thesis by (auto simp: parseSunshineTimestamp_def)
next
  case False
  then have "1 \<le> Index line '']'' \<and> Index line '']'' \<le> int (length line)"
    using timePortion_in_range by simp
  with False show ?thesis
    by (simp add: parseSunshineTimestamp_def slice_def Let_def timePortion_def)
qed

lemma parseLoop_error: "parseLoop lay v f = Inl e \<Longrightarrow> \<exists>a b. e = ParseError a b"
proof (induction lay arbitrary: v f)
  case Nil
  then show ?case by (auto split: if_splits)
next
  case (Cons ch rest)
  obtain pre stdstr st where ch: "ch = (pre, stdstr, st)" by (cases ch) auto
  from Cons.prems show ?case unfolding ch
    by (auto split: option.splits elem.splits dest: Cons.IH)
qed

lemma ParseInLocation_error: "ParseInLocation lay v loc = Inl e \<Longrightarrow> \<exists>a b. e = ParseError a b"
  by (auto simp: ParseInLocation_def split: sum.splits if_splits dest: parseLoop_error)

section \<open>Properties of the scan loop\<close>

lemma walkLog_fold:
  "walkLog c loc t0 lines = Some (fold max (entryTimes c loc lines) t0)"
proof (induction lines arbitrary: t0)
  case Nil
  show ?case by (simp add: entryTimes_def)
next
  case (Cons line rest)
  have ent: "entryTimes c loc (line # rest) = entryTimes c loc [line] @ entryTimes c loc rest"
    by (simp add: entryTimes_def)
  obtain r where r: "parseSunshineTimestamp loc line = Some r"
    using parseSunshineTimestamp_returns by blast
  show ?case
  proof (cases "Contains line (MonitorIsOffLogLine c)")
    case False
    then show ?thesis using Cons.IH by (simp add: ent) (simp add: entryTimes_def)
  next
    case True
    show ?thesis
    proof (cases r)
      case (Inl err)
      with True r show ?thesis using Cons.IH by (simp add: ent) (simp add: entryTimes_def)
    next
      case (Inr entryTime)
      have "entryTimes c loc [line] = [entryTime]"
        using True r Inr by (simp add: entryTimes_def)
      moreover have "(if After entryTime t0 then entryTime else t0) = max entryTime t0"
        by (simp add: After_def max_def)
      ultimately show ?thesis using True r Inr Cons.IH by (simp add: ent)
    qed
  qed
qed

lemma fold_max_Max: "fold max ts (t0 :: int) = Max (insert t0 (set ts))"
  using Max.set_eq_fold [of t0 ts] by simp

lemma walkLog_Max:
  "walkLog c loc t0 lines = Some (Max (insert t0 (set (entryTimes c loc lines))))"
  by (simp add: walkLog_fold fold_max_Max)

lemma walkLog_ge: "walkLog c loc t0 lines = Some t \<Longrightarrow> t0 \<le> t"
  using Max_ge [of "insert t0 (set (entryTimes c loc lines))" t0] by (auto simp: walkLog_Max)

lemma entryTimes_append:
  "entryTimes c loc (xs @ ys) = entryTimes c loc xs @ entryTimes c loc ys"
  by (simp add: entryTimes_def)

lemma walkLog_prefix_mono:
  assumes "prefix xs ys" and "walkLog c loc t0 xs = Some t" and "walkLog c loc t0 ys = Some t'"
  shows "t \<le> t'"
proof -
  from assms(1) obtain zs where ys: "ys = xs @ zs" by (auto simp: prefix_def)
  have "Max (insert t0 (set (entryTimes c loc xs))) \<le> Max (insert t0 (set (entryTimes c loc ys)))"
    by (rule Max_mono) (auto simp: ys entryTimes_append)
  with assms(2,3) show ?thesis by (simp add: walkLog_Max)
qed

lemma entryTimes_empty_trigger:
  "MonitorIsOffLogLine c = [] \<Longrightarrow> entryTimes c loc lines = allTimes loc lines"
  by (simp add: entryTimes_def allTimes_def Contains_empty)

lemma walkLog_present:
  assumes "\<exists>t \<in> set (entryTimes c loc lines). After t zeroTime"
  shows "walkLog c loc zeroTime lines = Some (Max (set (entryTimes c loc lines)))"
    and "\<not> IsZero (Max (set (entryTimes c loc lines)))"
proof -
  from assms obtain t where t: "t \<in> set (entryTimes c loc lines)" "zeroTime < t"
    by (auto simp: After_def)
  then have ne: "set (entryTimes c loc lines) \<noteq> {}" by auto
  have "t \<le> Max (set (entryTimes c loc lines))"
    using t(1) by simp
  with t(2) have pos: "zeroTime < Max (set (entryTimes c loc lines))"
    by linarith
  then have "Max (insert zeroTime (set (entryTimes c loc lines))) = Max (set (entryTimes c loc lines))"
    using ne by (simp add: max_def)
  then show "walkLog c loc zeroTime lines = Some (Max (set (entryTimes c loc lines)))"
    by (simp add: walkLog_Max)
  from pos show "\<not> IsZero (Max (set (entryTimes c loc lines)))"
    by (simp add: IsZero_def zeroTime_def)
qed

lemma walkLog_absent:
  assumes "\<forall>t \<in> set (entryTimes c loc lines). \<not> After t zeroTime"
  shows "walkLog c loc zeroTime lines = Some zeroTime"
proof -
  have "Max (insert zeroTime (set (entryTimes c loc lines))) = zeroTime"
  proof (rule Max_eqI)
    show "finite (insert zeroTime (set (entryTimes c loc lines)))" by simp
    show "zeroTime \<in> insert zeroTime (set (entryTimes c loc lines))" by simp
    fix y assume "y \<in> insert zeroTime (set (entryTimes c loc lines))"
    with assms show "y \<le> zeroTime" by (auto simp: After_def not_less)
  qed
  then show ?thesis by (simp add: walkLog_Max)
qed

section \<open>The layout parser accepts the strict pattern\<close>

lemma isDigit_Cons0: "isDigit (c # cs) 0 = (48 \<le> (of_char c :: nat) \<and> (of_char c :: nat) \<le> 57)"
  by (simp add: isDigit_def)

lemma isDigit_Cons1: "isDigit (a # c # cs) 1 = (48 \<le> (of_char c :: nat) \<and> (of_char c :: nat) \<le> 57)"
  by (simp add: isDigit_def)

lemma digitVal_range:
  "isDigit [c] 0 \<Longrightarrow> 0 \<le> digitVal c \<and> digitVal c \<le> 9"
  by (auto simp: isDigit_def digitVal_def)

lemma digit_not_special:
  "isDigit [c] 0 \<Longrightarrow> c \<noteq> CHR '' '' \<and> c \<noteq> CHR ''-'' \<and> c \<noteq> CHR ''+''"
  by (auto simp: isDigit_def)

lemma getnum_two_digits:
  "isDigit [a] 0 \<Longrightarrow> isDigit [b] 0 \<Longrightarrow>
     getnum (a # b # rest) fixed = Some (digitVal a * 10 + digitVal b, rest)"
  by (simp add: getnum_def isDigit_def)

lemma leadingInt_digit:
  "isDigit [c] 0 \<Longrightarrow> 0 \<le> x \<Longrightarrow> x < 1000 \<Longrightarrow>
     leadingInt x (c # cs) = leadingInt (x * 10 + digitVal c) cs"
  using digitVal_range [of c] by simp

lemma atoi_three_digits:
  assumes "isDigit [a] 0" and "isDigit [b] 0" and "isDigit [c] 0"
  shows "atoi [a, b, c] = Some (digitVal a * 100 + digitVal b * 10 + digitVal c)"
proof -
  have r: "0 \<le> digitVal a \<and> digitVal a \<le> 9" "0 \<le> digitVal b \<and> digitVal b \<le> 9"
    "0 \<le> digitVal c \<and> digitVal c \<le> 9"
    using assms digitVal_range by blast+
  have "leadingInt 0 [a, b, c] = Some (digitVal a * 100 + digitVal b * 10 + digitVal c, [])"
    using assms r by (simp add: leadingInt_digit)
  then show ?thesis
    using digit_not_special [OF assms(1)] by (simp add: atoi_def)
qed

lemma atoi_four_digits:
  assumes "isDigit [a] 0" and "isDigit [b] 0" and "isDigit [c] 0" and "isDigit [d] 0"
  shows "atoi [a, b, c, d] =
     Some ((digitVal a * 10 + digitVal b) * 100 + (digitVal c * 10 + digitVal d))"
proof -
  have r: "0 \<le> digitVal a \<and> digitVal a \<le> 9" "0 \<le> digitVal b \<and> digitVal b \<le> 9"
    "0 \<le> digitVal c \<and> digitVal c \<le> 9" "0 \<le> digitVal d \<and> digitVal d \<le> 9"
    using assms digitVal_range by blast+
  have "leadingInt 0 [a, b, c, d] =
     Some ((digitVal a * 10 + digitVal b) * 100 + (digitVal c * 10 + digitVal d), [])"
    using assms r by (simp add: leadingInt_digit algebra_simps)
  then show ?thesis
    using digit_not_special [OF assms(1)] by (simp add: atoi_def)
qed

lemma skip_char: "p \<noteq> CHR '' '' \<Longrightarrow> skip (p # v) [p] = Some v"
  by simp

lemma skip_space_digit: "isDigit [c] 0 \<Longrightarrow> skip (CHR '' '' # c # v) '' '' = Some (c # v)"
  using digit_not_special [of c] by (simp add: cutspace_def)

lemma skip_nothing: "skip v [] = Some v"
  by simp

lemma isDigit_head: "isDigit (c # cs) 0 = digitChar c"
  by (simp add: isDigit_def digitChar_def)

lemma digitChar_isDigit: "digitChar c = isDigit [c] 0"
  by (simp add: isDigit_def digitChar_def)

lemma parseLoop_strict:
  assumes D: "digitChar y1" "digitChar y2" "digitChar y3" "digitChar y4"
      "digitChar m1" "digitChar m2" "digitChar d1" "digitChar d2"
      "digitChar h1" "digitChar h2" "digitChar n1" "digitChar n2"
      "digitChar s1" "digitChar s2" "digitChar f1" "digitChar f2" "digitChar f3"
    and R: "1 \<le> digitVal m1 * 10 + digitVal m2" "digitVal m1 * 10 + digitVal m2 \<le> 12"
      "digitVal h1 * 10 + digitVal h2 < 24" "digitVal n1 * 10 + digitVal n2 < 60"
      "digitVal s1 * 10 + digitVal s2 < 60"
  shows "parseLoop sunshineLayout
           [y1, y2, y3, y4, CHR ''-'', m1, m2, CHR ''-'', d1, d2, CHR '' '',
            h1, h2, CHR '':'', n1, n2, CHR '':'', s1, s2, CHR ''.'', f1, f2, f3] noFields
         = Inr \<lparr>year = (digitVal y1 * 10 + digitVal y2) * 100 + (digitVal y3 * 10 + digitVal y4),
                month = digitVal m1 * 10 + digitVal m2,
                day = digitVal d1 * 10 + digitVal d2,
                hour = digitVal h1 * 10 + digitVal h2,
                minute = digitVal n1 * 10 + digitVal n2,
                sec = digitVal s1 * 10 + digitVal s2,
                nsec = (digitVal f1 * 100 + digitVal f2 * 10 + digitVal f3) * 1000000\<rparr>"
proof -
  note D' = D [unfolded digitChar_isDigit]
  have r: "0 \<le> digitVal h1" "0 \<le> digitVal h2" "0 \<le> digitVal n1" "0 \<le> digitVal n2"
      "0 \<le> digitVal s1" "0 \<le> digitVal s2" "0 \<le> digitVal f1" "0 \<le> digitVal f2"
      "0 \<le> digitVal f3"
    using D' digitVal_range by blast+
  have year: "parseStd stdLongYear
       [y1, y2, y3, y4, CHR ''-'', m1, m2, CHR ''-'', d1, d2, CHR '' '',
        h1, h2, CHR '':'', n1, n2, CHR '':'', s1, s2, CHR ''.'', f1, f2, f3] f
     = Got ([CHR ''-'', m1, m2, CHR ''-'', d1, d2, CHR '' '',
             h1, h2, CHR '':'', n1, n2, CHR '':'', s1, s2, CHR ''.'', f1, f2, f3],
            f\<lparr>year := (digitVal y1 * 10 + digitVal y2) * 100 + (digitVal y3 * 10 + digitVal y4)\<rparr>)" for f
    using D(1) by (simp add: isDigit_head atoi_four_digits [OF D'(1-4)])
  have frac: "parseStd (stdFracSecond0 3) [CHR ''.'', f1, f2, f3] f
     = Got ([], f\<lparr>nsec := (digitVal f1 * 100 + digitVal f2 * 10 + digitVal f3) * 1000000\<rparr>)" for f
    using r by (simp add: parseNanoseconds_def commaOrPeriod_def atoi_three_digits [OF D'(15-17)])
  show ?thesis
    using R r
    by (simp del: skip.simps parseStd.simps
        add: sunshineLayout_def year frac skip_char skip_nothing skip_space_digit [OF D'(9)]
          parseStd.simps(2-6) getnum_two_digits [OF D'(5,6)] getnum_two_digits [OF D'(7,8)]
          getnum_two_digits [OF D'(9,10)] getnum_two_digits [OF D'(11,12)]
          getnum_two_digits [OF D'(13,14)] noFields_def)
qed

lemma length_23:
  assumes "length (s :: 'a list) = 23"
  obtains c0 c1 c2 c3 c4 c5 c6 c7 c8 c9 c10 c11 c12 c13 c14 c15 c16 c17 c18 c19 c20 c21 c22
  where "s = [c0, c1, c2, c3, c4, c5, c6, c7, c8, c9, c10, c11, c12, c13, c14, c15, c16,
              c17, c18, c19, c20, c21, c22]"
proof -
  from assms have "length s = Suc (Suc (Suc (Suc (Suc (Suc (Suc (Suc (Suc (Suc (Suc (Suc
      (Suc (Suc (Suc (Suc (Suc (Suc (Suc (Suc (Suc (Suc (Suc 0))))))))))))))))))))))"
    by simp
  then show ?thesis
    using that by (auto simp: length_Suc_conv)
qed

lemma matchesPattern_parses:
  assumes "matchesPattern s"
  shows "\<exists>t. ParseInLocation sunshineLayout s loc = Inr t"
proof -
  from assms have "length s = 23" by (simp add: matchesPattern_def)
  then obtain c0 c1 c2 c3 c4 c5 c6 c7 c8 c9 c10 c11 c12 c13 c14 c15 c16 c17 c18 c19 c20 c21 c22
    where s: "s = [c0, c1, c2, c3, c4, c5, c6, c7, c8, c9, c10, c11, c12, c13, c14, c15, c16,
              c17, c18, c19, c20, c21, c22]"
    by (rule length_23)
  from assms have sep: "c4 = CHR ''-''" "c7 = CHR ''-''" "c10 = CHR '' ''"
      "c13 = CHR '':''" "c16 = CHR '':''" "c19 = CHR ''.''"
    by (simp_all add: matchesPattern_def s)
  from assms have D: "digitChar c0" "digitChar c1" "digitChar c2" "digitChar c3"
      "digitChar c5" "digitChar c6" "digitChar c8" "digitChar c9"
      "digitChar c11" "digitChar c12" "digitChar c14" "digitChar c15"
      "digitChar c17" "digitChar c18" "digitChar c20" "digitChar c21" "digitChar c22"
    by (simp_all add: matchesPattern_def s isDigit_def digitChar_def)
  from assms have R: "1 \<le> digitVal c5 * 10 + digitVal c6" "digitVal c5 * 10 + digitVal c6 \<le> 12"
      "digitVal c11 * 10 + digitVal c12 < 24" "digitVal c14 * 10 + digitVal c15 < 60"
      "digitVal c17 * 10 + digitVal c18 < 60"
    by (simp_all add: matchesPattern_def s num2_def)
  from assms have Day: "1 \<le> digitVal c8 * 10 + digitVal c9"
      "digitVal c8 * 10 + digitVal c9
         \<le> daysIn (digitVal c5 * 10 + digitVal c6)
              ((digitVal c0 * 10 + digitVal c1) * 100 + (digitVal c2 * 10 + digitVal c3))"
    by (simp_all add: matchesPattern_def s num2_def num4_def)
  show ?thesis
    using Day
    by (simp add: ParseInLocation_def s sep parseLoop_strict [OF D R] not_less del: parseLoop.simps)
qed

section \<open>What the layout parser accepts\<close>

lemma digits_1: "digits 1 x \<longleftrightarrow> (\<exists>a. x = [a] \<and> digitChar a)"
  by (auto simp: digits_def length_Suc_conv)

lemma digits_2: "digits 2 x \<longleftrightarrow> (\<exists>a b. x = [a, b] \<and> digitChar a \<and> digitChar b)"
  by (auto simp: digits_def length_Suc_conv numeral_2_eq_2)

lemma digits_4:
  "digits 4 x \<longleftrightarrow>
     (\<exists>a b c d. x = [a, b, c, d] \<and> digitChar a \<and> digitChar b \<and> digitChar c \<and> digitChar d)"
proof -
  have "length x = 4 \<longleftrightarrow> length x = Suc (Suc (Suc (Suc 0)))" by arith
  then show ?thesis unfolding digits_def by (auto simp: length_Suc_conv)
qed

lemma number_simps:
  "number [a] = digitVal a"
  "number [a, b] = digitVal a * 10 + digitVal b"
  "number [a, b, c] = (digitVal a * 10 + digitVal b) * 10 + digitVal c"
  "number [a, b, c, d] = ((digitVal a * 10 + digitVal b) * 10 + digitVal c) * 10 + digitVal d"
  by (simp_all add: number_def)

lemma digitChar_range: "digitChar c \<Longrightarrow> 0 \<le> digitVal c \<and> digitVal c \<le> 9"
  by (auto simp: digitChar_def digitVal_def)

lemma digitChar_not_sign:
  "digitChar c \<Longrightarrow> c \<noteq> CHR '' '' \<and> c \<noteq> CHR ''-'' \<and> c \<noteq> CHR ''+''"
  by (auto simp: digitChar_def)

lemma isDigit_0: "isDigit v 0 \<longleftrightarrow> (v \<noteq> [] \<and> digitChar (hd v))"
  by (cases v) (simp_all add: isDigit_def digitChar_def)

lemma isDigit_1: "isDigit (a # v) 1 \<longleftrightarrow> (v \<noteq> [] \<and> digitChar (hd v))"
  by (cases v) (simp_all add: isDigit_def digitChar_def)

lemma getnum_fixed_iff:
  "getnum v True = Some (n, r) \<longleftrightarrow>
     (\<exists>a b. v = a # b # r \<and> digitChar a \<and> digitChar b \<and> n = digitVal a * 10 + digitVal b)"
proof (cases v)
  case Nil
  then show ?thesis by (simp add: getnum_def isDigit_def)
next
  case (Cons a v')
  show ?thesis
  proof (cases v')
    case Nil
    with Cons show ?thesis by (simp add: getnum_def isDigit_def)
  next
    case (Cons b v'')
    with \<open>v = a # v'\<close> show ?thesis
      by (auto simp: getnum_def isDigit_def digitChar_def)
  qed
qed

lemma getnum_free_iff:
  "getnum v False = Some (n, r) \<longleftrightarrow>
     (\<exists>a b. v = a # b # r \<and> digitChar a \<and> digitChar b \<and> n = digitVal a * 10 + digitVal b)
     \<or> (\<exists>a. v = a # r \<and> digitChar a \<and> \<not> isDigit r 0 \<and> n = digitVal a)"
proof (cases v)
  case Nil
  then show ?thesis by (simp add: getnum_def isDigit_def)
next
  case (Cons a v')
  show ?thesis
  proof (cases v')
    case Nil
    with Cons show ?thesis by (auto simp: getnum_def isDigit_def digitChar_def)
  next
    case (Cons b v'')
    with \<open>v = a # v'\<close> show ?thesis
      by (auto simp: getnum_def isDigit_def digitChar_def)
  qed
qed

lemma skip_nothing_iff: "skip v [] = Some r \<longleftrightarrow> r = v"
  by auto

lemma skip_char_iff: "p \<noteq> CHR '' '' \<Longrightarrow> skip v [p] = Some r \<longleftrightarrow> v = p # r"
  by (cases v) auto

lemma skip_space_iff:
  "skip v '' '' = Some r \<longleftrightarrow> (v = [] \<or> hd v = CHR '' '') \<and> r = cutspace v"
  by (auto simp: cutspace_def)

lemma cutspace_spaces:
  assumes "spaces sp" and "r \<noteq> []" and "hd r \<noteq> CHR '' ''"
  shows "cutspace (sp @ r) = r" and "hd (sp @ r) = CHR '' ''"
proof -
  from assms(1) have all: "\<And>x. x \<in> set sp \<Longrightarrow> x = CHR '' ''" and ne: "sp \<noteq> []"
    by (auto simp: spaces_def list_all_iff)
  have "dropWhile (\<lambda>c. c = CHR '' '') (sp @ r) = dropWhile (\<lambda>c. c = CHR '' '') r"
    using all by (simp add: dropWhile_append2)
  also have "\<dots> = r" using assms(2,3) by (cases r) simp_all
  finally show "cutspace (sp @ r) = r" by (simp add: cutspace_def)
  from ne all show "hd (sp @ r) = CHR '' ''" by (cases sp) simp_all
qed

lemma spaces_cutspace:
  assumes "v = [] \<or> hd v = CHR '' ''" and "cutspace v \<noteq> []"
  shows "\<exists>sp. v = sp @ cutspace v \<and> spaces sp"
proof -
  let ?sp = "takeWhile (\<lambda>c. c = CHR '' '') v"
  have "v = ?sp @ cutspace v" by (simp add: cutspace_def)
  moreover from assms have "v \<noteq> []" "hd v = CHR '' ''" by (auto simp: cutspace_def)
  then have "?sp \<noteq> []" by (cases v) simp_all
  moreover have "list_all (\<lambda>c. c = CHR '' '') ?sp"
    by (auto simp: list_all_iff dest: set_takeWhileD)
  ultimately show ?thesis unfolding spaces_def by blast
qed

lemma leadingInt_nondigit: "\<not> digitChar c \<Longrightarrow> leadingInt x (c # cs) = Some (x, c # cs)"
  by (simp add: isDigit_head)

lemma leadingInt_small:
  "digitChar c \<Longrightarrow> 0 \<le> x \<Longrightarrow> x < 1000 \<Longrightarrow>
     leadingInt x (c # cs) = leadingInt (x * 10 + digitVal c) cs"
  using digitChar_range [of c] by (simp add: isDigit_head)

lemma leadingInt_2:
  "leadingInt 0 [a, b] = Some (q, []) \<longleftrightarrow> digitChar a \<and> digitChar b \<and> q = number [a, b]"
proof (cases "digitChar a")
  case False
  then show ?thesis by (simp del: leadingInt.simps add: leadingInt_nondigit)
next
  case a: True
  show ?thesis
  proof (cases "digitChar b")
    case False
    with a show ?thesis
      using digitChar_range [OF a] by (simp del: leadingInt.simps add: leadingInt_small leadingInt_nondigit)
  next
    case True
    with a show ?thesis
      using digitChar_range [OF a] digitChar_range [OF True]
      by (auto simp del: leadingInt.simps simp add: leadingInt.simps(1) leadingInt_small number_simps)
  qed
qed

lemma leadingInt_3:
  "leadingInt 0 [a, b, c] = Some (q, []) \<longleftrightarrow>
     digitChar a \<and> digitChar b \<and> digitChar c \<and> q = number [a, b, c]"
proof (cases "digitChar a \<and> digitChar b")
  case False
  then show ?thesis
    using digitChar_range [of a]
    by (cases "digitChar a") (auto simp del: leadingInt.simps simp add: leadingInt_small leadingInt_nondigit)
next
  case True
  then have a: "digitChar a" and b: "digitChar b" by simp_all
  show ?thesis
  proof (cases "digitChar c")
    case False
    with a b show ?thesis
      using digitChar_range [OF a] digitChar_range [OF b]
      by (simp del: leadingInt.simps add: leadingInt_small leadingInt_nondigit)
  next
    case True
    with a b show ?thesis
      using digitChar_range [OF a] digitChar_range [OF b] digitChar_range [OF True]
      by (auto simp del: leadingInt.simps simp add: leadingInt.simps(1) leadingInt_small number_simps)
  qed
qed

lemma leadingInt_4:
  "leadingInt 0 [a, b, c, d] = Some (q, []) \<longleftrightarrow>
     digitChar a \<and> digitChar b \<and> digitChar c \<and> digitChar d \<and> q = number [a, b, c, d]"
proof (cases "digitChar a \<and> digitChar b \<and> digitChar c")
  case False
  then show ?thesis
    using digitChar_range [of a] digitChar_range [of b]
    by (cases "digitChar a"; cases "digitChar b")
      (auto simp del: leadingInt.simps simp add: leadingInt_small leadingInt_nondigit)
next
  case True
  then have a: "digitChar a" and b: "digitChar b" and c: "digitChar c" by simp_all
  show ?thesis
  proof (cases "digitChar d")
    case False
    with a b c show ?thesis
      using digitChar_range [OF a] digitChar_range [OF b] digitChar_range [OF c]
      by (simp del: leadingInt.simps add: leadingInt_small leadingInt_nondigit)
  next
    case True
    with a b c show ?thesis
      using digitChar_range [OF a] digitChar_range [OF b] digitChar_range [OF c]
        digitChar_range [OF True]
      by (auto simp del: leadingInt.simps simp add: leadingInt.simps(1) leadingInt_small number_simps)
  qed
qed

lemma atoi_year_iff:
  assumes "digitChar a"
  shows "atoi [a, b, c, d] = Some y \<longleftrightarrow>
     digitChar b \<and> digitChar c \<and> digitChar d \<and> y = number [a, b, c, d]"
proof -
  have "atoi [a, b, c, d] = Some y \<longleftrightarrow> leadingInt 0 [a, b, c, d] = Some (y, [])"
    using digitChar_not_sign [OF assms]
    by (auto simp: atoi_def simp del: leadingInt.simps split: option.splits)
  then show ?thesis using assms by (simp add: leadingInt_4 del: leadingInt.simps)
qed

lemma atoi_millis_iff:
  "(\<exists>ns. atoi [a, b, c] = Some ns \<and> 0 \<le> ns) \<longleftrightarrow> millis [a, b, c]"
proof -
  consider (plus) "a = CHR ''+''" | (minus) "a = CHR ''-''"
    | (other) "a \<noteq> CHR ''+''" "a \<noteq> CHR ''-''"
    by blast
  then show ?thesis
  proof cases
    case plus
    then have na: "\<not> digitChar a" by (simp add: digitChar_def)
    have "atoi [a, b, c] = Some ns \<longleftrightarrow> leadingInt 0 [b, c] = Some (ns, [])" for ns
      using plus by (auto simp: atoi_def simp del: leadingInt.simps split: option.splits)
    moreover have "digitChar b \<Longrightarrow> digitChar c \<Longrightarrow> 0 \<le> number [b, c]"
      using digitChar_range [of b] digitChar_range [of c] by (simp add: number_simps)
    ultimately show ?thesis
      using plus na by (auto simp: millis_def leadingInt_2 simp del: leadingInt.simps)
  next
    case minus
    then have na: "\<not> digitChar a" by (simp add: digitChar_def)
    have "atoi [a, b, c] = Some ns \<longleftrightarrow> (\<exists>q. leadingInt 0 [b, c] = Some (q, []) \<and> ns = - q)" for ns
      using minus by (auto simp: atoi_def simp del: leadingInt.simps split: option.splits)
    moreover have "digitChar b \<Longrightarrow> digitChar c \<Longrightarrow> 0 \<le> number [b, c]"
      using digitChar_range [of b] digitChar_range [of c] by (simp add: number_simps)
    ultimately show ?thesis
      using minus na by (auto simp: millis_def leadingInt_2 simp del: leadingInt.simps)
  next
    case other
    have "atoi [a, b, c] = Some ns \<longleftrightarrow> leadingInt 0 [a, b, c] = Some (ns, [])" for ns
      using other by (auto simp: atoi_def simp del: leadingInt.simps split: option.splits)
    moreover have "digitChar a \<Longrightarrow> digitChar b \<Longrightarrow> digitChar c \<Longrightarrow> 0 \<le> number [a, b, c]"
      using digitChar_range [of a] digitChar_range [of b] digitChar_range [of c]
      by (simp add: number_simps)
    ultimately show ?thesis
      using other by (auto simp: millis_def leadingInt_3 simp del: leadingInt.simps)
  qed
qed

lemma length_3_cases: "length (x :: 'a list) = 3 \<Longrightarrow> \<exists>a b c. x = [a, b, c]"
proof -
  assume "length x = 3"
  then have "length x = Suc (Suc (Suc 0))" by arith
  then show ?thesis by (auto simp: length_Suc_conv)
qed

lemma length_4_cases: "length (x :: 'a list) = 4 \<Longrightarrow> \<exists>a b c d. x = [a, b, c, d]"
proof -
  assume "length x = 4"
  then have "length x = Suc (Suc (Suc (Suc 0)))" by arith
  then show ?thesis by (auto simp: length_Suc_conv)
qed

lemma getnum_digits:
  "digitChar a \<Longrightarrow> digitChar b \<Longrightarrow>
     getnum (a # b # r) fixed = Some (digitVal a * 10 + digitVal b, r)"
  by (simp add: getnum_def isDigit_def digitChar_def)

text \<open>What each element of the layout reads, and what is left after it.\<close>

lemma year_iff:
  "parseStd stdLongYear v f = Got (r, f') \<longleftrightarrow>
     (\<exists>y. v = y @ r \<and> digits 4 y \<and> f' = f\<lparr>year := number y\<rparr>)"
proof
  assume p: "parseStd stdLongYear v f = Got (r, f')"
  then have len: "4 \<le> length v" and d0: "isDigit v 0"
    by (auto split: if_splits)
  from len have "length (take 4 v) = 4" by simp
  then obtain a b c d where t: "take 4 v = [a, b, c, d]"
    using length_4_cases by blast
  have v: "v = [a, b, c, d] @ drop 4 v"
    using append_take_drop_id [of 4 v] t by simp
  have a: "digitChar a" using d0 v by (metis append_Cons isDigit_head)
  from p len d0 obtain y where y: "atoi (take 4 v) = Some y" "r = drop 4 v" "f' = f\<lparr>year := y\<rparr>"
    by (auto split: option.splits)
  from y(1) have "digitChar b \<and> digitChar c \<and> digitChar d \<and> y = number [a, b, c, d]"
    unfolding t using atoi_year_iff [OF a] by simp
  with a v y show "\<exists>y. v = y @ r \<and> digits 4 y \<and> f' = f\<lparr>year := number y\<rparr>"
    by (intro exI [of _ "[a, b, c, d]"]) (simp add: digits_4)
next
  assume "\<exists>y. v = y @ r \<and> digits 4 y \<and> f' = f\<lparr>year := number y\<rparr>"
  then obtain a b c d where v: "v = [a, b, c, d] @ r"
    and D: "digitChar a" "digitChar b" "digitChar c" "digitChar d"
    and f': "f' = f\<lparr>year := number [a, b, c, d]\<rparr>"
    by (auto simp: digits_4)
  have "atoi [a, b, c, d] = Some (number [a, b, c, d])"
    using atoi_year_iff [OF D(1)] D by simp
  then show "parseStd stdLongYear v f = Got (r, f')"
    using D(1) by (simp add: v f' isDigit_head)
qed

lemma month_iff:
  "parseStd stdZeroMonth v f = Got (r, f') \<longleftrightarrow>
     (\<exists>x. v = x @ r \<and> digits 2 x \<and> 1 \<le> number x \<and> number x \<le> 12
          \<and> f' = f\<lparr>month := number x\<rparr>)"
  by (auto simp: getnum_fixed_iff getnum_digits digits_2 number_simps split: option.splits if_splits)

lemma day_iff:
  "parseStd stdZeroDay v f = Got (r, f') \<longleftrightarrow>
     (\<exists>x. v = x @ r \<and> digits 2 x \<and> f' = f\<lparr>day := number x\<rparr>)"
  by (auto simp: getnum_fixed_iff getnum_digits digits_2 number_simps split: option.splits if_splits)

lemma two_digits_nonneg:
  "digitChar a \<Longrightarrow> digitChar b \<Longrightarrow> \<not> digitVal a * 10 + digitVal b < 0"
  using digitChar_range [of a] digitChar_range [of b] by simp

lemma minute_iff:
  "parseStd stdZeroMinute v f = Got (r, f') \<longleftrightarrow>
     (\<exists>x. v = x @ r \<and> digits 2 x \<and> number x < 60 \<and> f' = f\<lparr>minute := number x\<rparr>)"
  by (auto simp: getnum_fixed_iff getnum_digits digits_2 number_simps not_less [symmetric]
      two_digits_nonneg split: option.splits if_splits)

lemma second_iff:
  "parseStd stdZeroSecond v f = Got (r, f') \<longleftrightarrow>
     (\<exists>x. v = x @ r \<and> digits 2 x \<and> number x < 60 \<and> f' = f\<lparr>sec := number x\<rparr>)"
  by (auto simp: getnum_fixed_iff getnum_digits digits_2 number_simps not_less [symmetric]
      two_digits_nonneg split: option.splits if_splits)

lemma hour_iff:
  "parseStd stdHour v f = Got (r, f') \<longleftrightarrow>
     (\<exists>x. v = x @ r \<and> (digits 2 x \<or> digits 1 x \<and> \<not> isDigit r 0) \<and> number x < 24
          \<and> f' = f\<lparr>hour := number x\<rparr>)"
proof -
  have nn: "digitChar a \<Longrightarrow> digitChar b \<Longrightarrow> 0 \<le> digitVal a * 10 + digitVal b" for a b
    using digitChar_range [of a] digitChar_range [of b] by simp
  have one: "digitChar a \<Longrightarrow> 0 \<le> digitVal a \<and> digitVal a < 24" for a
    using digitChar_range [of a] by simp
  show ?thesis
  proof
    assume "parseStd stdHour v f = Got (r, f')"
    then obtain h where g: "getnum v False = Some (h, r)" and h: "\<not> (h < 0 \<or> 24 \<le> h)"
      and f': "f' = f\<lparr>hour := h\<rparr>"
      by (auto split: option.splits if_splits)
    from g [unfolded getnum_free_iff] show "\<exists>x. v = x @ r \<and> (digits 2 x \<or> digits 1 x \<and> \<not> isDigit r 0)
        \<and> number x < 24 \<and> f' = f\<lparr>hour := number x\<rparr>"
    proof
      assume "\<exists>a b. v = a # b # r \<and> digitChar a \<and> digitChar b \<and> h = digitVal a * 10 + digitVal b"
      then obtain a b where "v = [a, b] @ r" "digitChar a" "digitChar b" "h = number [a, b]"
        by (auto simp: number_simps)
      with h f' show ?thesis
        by (intro exI [of _ "[a, b]"]) (simp add: digits_2)
    next
      assume "\<exists>a. v = a # r \<and> digitChar a \<and> \<not> isDigit r 0 \<and> h = digitVal a"
      then obtain a where "v = [a] @ r" "digitChar a" "\<not> isDigit r 0" "h = number [a]"
        by (auto simp: number_simps)
      with h f' show ?thesis
        by (intro exI [of _ "[a]"]) (simp add: digits_def)
    qed
  next
    assume "\<exists>x. v = x @ r \<and> (digits 2 x \<or> digits 1 x \<and> \<not> isDigit r 0) \<and> number x < 24
        \<and> f' = f\<lparr>hour := number x\<rparr>"
    then obtain x where x: "v = x @ r" "digits 2 x \<or> digits 1 x \<and> \<not> isDigit r 0"
      "number x < 24" "f' = f\<lparr>hour := number x\<rparr>"
      by blast
    from x(2) have "getnum v False = Some (number x, r) \<and> 0 \<le> number x"
    proof
      assume "digits 2 x"
      then obtain a b where "x = [a, b]" "digitChar a" "digitChar b" by (auto simp: digits_2)
      then show ?thesis using nn [of a b] by (simp add: x(1) getnum_free_iff number_simps)
    next
      assume "digits 1 x \<and> \<not> isDigit r 0"
      then obtain a where "x = [a]" "digitChar a" "\<not> isDigit r 0"
        by (auto simp: digits_def length_Suc_conv)
      then show ?thesis using one [of a] by (simp add: x(1) getnum_free_iff number_simps)
    qed
    with x(3,4) show "parseStd stdHour v f = Got (r, f')" by simp
  qed
qed

lemma parseLoop_Cons_iff:
  "parseLoop ((pre, str, st) # rest) v f = Inr f' \<longleftrightarrow>
     (\<exists>v1 v2 f1. skip v pre = Some v1 \<and> parseStd st v1 f = Got (v2, f1)
                 \<and> parseLoop rest v2 f1 = Inr f')"
  by (auto split: option.splits elem.splits)

lemma parseLoop_Nil_iff: "parseLoop [] v f = Inr f' \<longleftrightarrow> v = [] \<and> f' = f"
  by auto

lemma frac_value_iff:
  "parseStd (stdFracSecond0 3) v f = Got (r, f') \<longleftrightarrow>
     (\<exists>p ms ns. v = p # ms @ r \<and> (p = CHR ''.'' \<or> p = CHR '','') \<and> length ms = 3
         \<and> atoi ms = Some ns \<and> 0 \<le> ns \<and> f' = f\<lparr>nsec := ns * 1000000\<rparr>)"
proof
  assume p: "parseStd (stdFracSecond0 3) v f = Got (r, f')"
  then have len: "4 \<le> length v" by (auto split: if_splits)
  then have "length (take 4 v) = 4" by simp
  then obtain q a b c where t: "take 4 v = [q, a, b, c]"
    using length_4_cases by blast
  have v: "v = q # [a, b, c] @ drop 4 v"
    using append_take_drop_id [of 4 v] t by simp
  have r: "r = drop 4 v" using p len by (auto split: if_splits elem.splits)
  have tk: "take 3 (drop (Suc 0) v) = [a, b, c]" by (subst v) simp
  have v0: "v ! 0 = q" by (subst v) simp
  from p len obtain ns' where "parseNanoseconds v 4 = Got ns'" "f' = f\<lparr>nsec := ns'\<rparr>"
    by (auto split: if_splits elem.splits)
  then have "commaOrPeriod q \<and> (\<exists>ns. atoi [a, b, c] = Some ns \<and> 0 \<le> ns
      \<and> f' = f\<lparr>nsec := ns * 1000000\<rparr>)"
    by (auto simp: parseNanoseconds_def tk v0 not_less split: if_splits option.splits)
  then obtain ns where "q = CHR ''.'' \<or> q = CHR '',''" "atoi [a, b, c] = Some ns" "0 \<le> ns"
    "f' = f\<lparr>nsec := ns * 1000000\<rparr>"
    by (auto simp: commaOrPeriod_def)
  with v r show "\<exists>p ms ns. v = p # ms @ r \<and> (p = CHR ''.'' \<or> p = CHR '','') \<and> length ms = 3
         \<and> atoi ms = Some ns \<and> 0 \<le> ns \<and> f' = f\<lparr>nsec := ns * 1000000\<rparr>"
    by (intro exI [of _ q] exI [of _ "[a, b, c]"] exI [of _ ns]) simp
next
  assume "\<exists>p ms ns. v = p # ms @ r \<and> (p = CHR ''.'' \<or> p = CHR '','') \<and> length ms = 3
         \<and> atoi ms = Some ns \<and> 0 \<le> ns \<and> f' = f\<lparr>nsec := ns * 1000000\<rparr>"
  then obtain p ms ns where v: "v = p # ms @ r" and p: "p = CHR ''.'' \<or> p = CHR '',''"
    and l: "length ms = 3" and ns: "atoi ms = Some ns" "0 \<le> ns"
    and f': "f' = f\<lparr>nsec := ns * 1000000\<rparr>"
    by blast
  from l obtain a b c where ms: "ms = [a, b, c]"
    using length_3_cases by blast
  show "parseStd (stdFracSecond0 3) v f = Got (r, f')"
    using p ns by (simp add: v ms f' parseNanoseconds_def commaOrPeriod_def)
qed

lemma millis_atoi: "millis ms \<longleftrightarrow> length ms = 3 \<and> (\<exists>ns. atoi ms = Some ns \<and> 0 \<le> ns)"
proof (cases "length ms = 3")
  case False
  then show ?thesis by (simp add: millis_def)
next
  case True
  then obtain a b c where "ms = [a, b, c]" using length_3_cases by blast
  then show ?thesis using atoi_millis_iff [of a b c] by simp
qed

text \<open>The whole layout: the parse succeeds exactly on the texts of the form that
  \<open>layoutAccepts\<close> describes (the day of the month is checked after the loop),
  and then the fields are the numbers read.\<close>

lemma parseLoop_sunshine_iff:
  "parseLoop sunshineLayout s f = Inr f' \<longleftrightarrow>
     (\<exists>y mo d sp h mi se p ms ns.
        s = y @ ''-'' @ mo @ ''-'' @ d @ sp @ h @ '':'' @ mi @ '':'' @ se @ [p] @ ms
        \<and> digits 4 y \<and> digits 2 mo \<and> digits 2 d \<and> spaces sp
        \<and> (digits 1 h \<or> digits 2 h) \<and> digits 2 mi \<and> digits 2 se
        \<and> (p = CHR ''.'' \<or> p = CHR '','') \<and> length ms = 3 \<and> atoi ms = Some ns \<and> 0 \<le> ns
        \<and> 1 \<le> number mo \<and> number mo \<le> 12
        \<and> number h < 24 \<and> number mi < 60 \<and> number se < 60
        \<and> f' = f\<lparr>year := number y, month := number mo, day := number d, hour := number h,
                   minute := number mi, sec := number se, nsec := ns * 1000000\<rparr>)"
  (is "?parse \<longleftrightarrow> ?form")
proof
  assume ?parse
  then obtain v1 f1 v2 t2 f2 v3 t3 f3 v4 t4 f4 v5 t5 f5 v6 t6 f6 where
      e1: "parseStd stdLongYear s f = Got (v1, f1)"
    and k2: "skip v1 ''-'' = Some t2" and e2: "parseStd stdZeroMonth t2 f1 = Got (v2, f2)"
    and k3: "skip v2 ''-'' = Some t3" and e3: "parseStd stdZeroDay t3 f2 = Got (v3, f3)"
    and k4: "skip v3 '' '' = Some t4" and e4: "parseStd stdHour t4 f3 = Got (v4, f4)"
    and k5: "skip v4 '':'' = Some t5" and e5: "parseStd stdZeroMinute t5 f4 = Got (v5, f5)"
    and k6: "skip v5 '':'' = Some t6" and e6: "parseStd stdZeroSecond t6 f5 = Got (v6, f6)"
    and e7: "parseStd (stdFracSecond0 3) v6 f6 = Got ([], f')"
    unfolding sunshineLayout_def parseLoop_Cons_iff parseLoop_Nil_iff skip_nothing_iff
    by blast
  from e1 obtain y where y: "s = y @ v1" "digits 4 y" "f1 = f\<lparr>year := number y\<rparr>"
    unfolding year_iff by blast
  from k2 have t2: "v1 = CHR ''-'' # t2" by (simp add: skip_char_iff del: skip.simps)
  from e2 obtain mo where mo: "t2 = mo @ v2" "digits 2 mo" "1 \<le> number mo" "number mo \<le> 12"
      "f2 = f1\<lparr>month := number mo\<rparr>"
    unfolding month_iff by blast
  from k3 have t3: "v2 = CHR ''-'' # t3" by (simp add: skip_char_iff del: skip.simps)
  from e3 obtain d where d: "t3 = d @ v3" "digits 2 d" "f3 = f2\<lparr>day := number d\<rparr>"
    unfolding day_iff by blast
  from e4 obtain h where h: "t4 = h @ v4" "digits 2 h \<or> digits 1 h \<and> \<not> isDigit v4 0"
      "number h < 24" "f4 = f3\<lparr>hour := number h\<rparr>"
    unfolding hour_iff by blast
  from h(1,2) have "t4 \<noteq> []" by (auto simp: digits_def)
  moreover from k4 have "(v3 = [] \<or> hd v3 = CHR '' '') \<and> t4 = cutspace v3"
    by (simp add: skip_space_iff del: skip.simps)
  ultimately obtain sp where sp: "v3 = sp @ t4" "spaces sp"
    using spaces_cutspace [of v3] by auto
  from k5 have t5: "v4 = CHR '':'' # t5" by (simp add: skip_char_iff del: skip.simps)
  from e5 obtain mi where mi: "t5 = mi @ v5" "digits 2 mi" "number mi < 60"
      "f5 = f4\<lparr>minute := number mi\<rparr>"
    unfolding minute_iff by blast
  from k6 have t6: "v5 = CHR '':'' # t6" by (simp add: skip_char_iff del: skip.simps)
  from e6 obtain se where se: "t6 = se @ v6" "digits 2 se" "number se < 60"
      "f6 = f5\<lparr>sec := number se\<rparr>"
    unfolding second_iff by blast
  from e7 obtain p ms ns where fr: "v6 = p # ms" "p = CHR ''.'' \<or> p = CHR '',''" "length ms = 3"
      "atoi ms = Some ns" "0 \<le> ns" "f' = f6\<lparr>nsec := ns * 1000000\<rparr>"
    unfolding frac_value_iff by auto
  have s: "s = y @ ''-'' @ mo @ ''-'' @ d @ sp @ h @ '':'' @ mi @ '':'' @ se @ [p] @ ms"
    by (simp add: y(1) t2 mo(1) t3 d(1) sp(1) h(1) t5 mi(1) t6 se(1) fr(1))
  have f': "f' = f\<lparr>year := number y, month := number mo, day := number d, hour := number h,
                   minute := number mi, sec := number se, nsec := ns * 1000000\<rparr>"
    by (simp add: y(3) mo(5) d(3) h(4) mi(4) se(4) fr(6))
  from h(2) have hh: "digits 1 h \<or> digits 2 h" by blast
  show ?form
    using s y(2) mo(2,3,4) d(2) sp(2) hh h(3) mi(2,3) se(2,3) fr(2,3,4,5) f' by blast
next
  assume ?form
  then obtain y mo d sp h mi se p ms ns where
      s: "s = y @ ''-'' @ mo @ ''-'' @ d @ sp @ h @ '':'' @ mi @ '':'' @ se @ [p] @ ms"
    and D: "digits 4 y" "digits 2 mo" "digits 2 d" "spaces sp" "digits 1 h \<or> digits 2 h"
      "digits 2 mi" "digits 2 se"
    and P: "p = CHR ''.'' \<or> p = CHR '',''" "length ms = 3" "atoi ms = Some ns" "0 \<le> ns"
    and R: "1 \<le> number mo" "number mo \<le> 12" "number h < 24" "number mi < 60" "number se < 60"
    and f': "f' = f\<lparr>year := number y, month := number mo, day := number d, hour := number h,
                   minute := number mi, sec := number se, nsec := ns * 1000000\<rparr>"
    by blast
  let ?f1 = "f\<lparr>year := number y\<rparr>"
  let ?f2 = "?f1\<lparr>month := number mo\<rparr>"
  let ?f3 = "?f2\<lparr>day := number d\<rparr>"
  let ?f4 = "?f3\<lparr>hour := number h\<rparr>"
  let ?f5 = "?f4\<lparr>minute := number mi\<rparr>"
  let ?f6 = "?f5\<lparr>sec := number se\<rparr>"
  let ?v6 = "p # ms"
  let ?v5 = "CHR '':'' # se @ ?v6"
  let ?v4 = "CHR '':'' # mi @ ?v5"
  let ?t4 = "h @ ?v4"
  let ?v3 = "sp @ ?t4"
  let ?v2 = "CHR ''-'' # d @ ?v3"
  let ?v1 = "CHR ''-'' # mo @ ?v2"
  have e7: "parseStd (stdFracSecond0 3) ?v6 ?f6 = Got ([], ?f6\<lparr>nsec := ns * 1000000\<rparr>)"
    unfolding frac_value_iff using P by auto
  have e6: "parseStd stdZeroSecond (se @ ?v6) ?f5 = Got (?v6, ?f6)"
    unfolding second_iff using D(7) R(5) by blast
  have e5: "parseStd stdZeroMinute (mi @ ?v5) ?f4 = Got (?v5, ?f5)"
    unfolding minute_iff using D(6) R(4) by blast
  have nd: "\<not> isDigit ?v4 0" by (simp add: isDigit_head digitChar_def)
  have e4: "parseStd stdHour ?t4 ?f3 = Got (?v4, ?f4)"
    unfolding hour_iff using D(5) R(3) nd by blast
  have e3: "parseStd stdZeroDay (d @ ?v3) ?f2 = Got (?v3, ?f3)"
    unfolding day_iff using D(3) by blast
  have e2: "parseStd stdZeroMonth (mo @ ?v2) ?f1 = Got (?v2, ?f2)"
    unfolding month_iff using D(2) R(1,2) by blast
  have e1: "parseStd stdLongYear (y @ ?v1) f = Got (?v1, ?f1)"
    unfolding year_iff using D(1) by blast
  from D(5) have "h \<noteq> [] \<and> digitChar (hd h)"
    by (auto simp: digits_def length_Suc_conv numeral_2_eq_2)
  then have "?t4 \<noteq> []" "hd ?t4 \<noteq> CHR '' ''"
    using digitChar_not_sign [of "hd h"] by simp_all
  then have k4: "skip ?v3 '' '' = Some ?t4"
    using cutspace_spaces [OF D(4), of ?t4] by (simp add: skip_space_iff del: skip.simps)
  have "parseLoop sunshineLayout (y @ ?v1) f = Inr (?f6\<lparr>nsec := ns * 1000000\<rparr>)"
    unfolding sunshineLayout_def parseLoop_Cons_iff parseLoop_Nil_iff skip_nothing_iff
    using e1 e2 e3 e4 e5 e6 e7 k4
    by (auto simp: skip_char_iff simp del: skip.simps parseStd.simps)
  then show ?parse by (simp add: s f')
qed

lemma ParseInLocation_accepts_iff:
  "(\<exists>t. ParseInLocation sunshineLayout s loc = Inr t) \<longleftrightarrow> layoutAccepts s"
proof
  assume "\<exists>t. ParseInLocation sunshineLayout s loc = Inr t"
  then obtain f where p: "parseLoop sunshineLayout s noFields = Inr f"
    and dd: "\<not> (day f < 1 \<or> daysIn (month f) (year f) < day f)"
    by (auto simp: ParseInLocation_def split: sum.splits if_splits)
  from p [unfolded parseLoop_sunshine_iff] obtain y mo d sp h mi se p ms ns where
      s: "s = y @ ''-'' @ mo @ ''-'' @ d @ sp @ h @ '':'' @ mi @ '':'' @ se @ [p] @ ms"
    and D: "digits 4 y" "digits 2 mo" "digits 2 d" "spaces sp" "digits 1 h \<or> digits 2 h"
      "digits 2 mi" "digits 2 se"
    and P: "p = CHR ''.'' \<or> p = CHR '',''" "length ms = 3" "atoi ms = Some ns" "0 \<le> ns"
    and R: "1 \<le> number mo" "number mo \<le> 12" "number h < 24" "number mi < 60" "number se < 60"
    and f: "f = noFields\<lparr>year := number y, month := number mo, day := number d,
                 hour := number h, minute := number mi, sec := number se, nsec := ns * 1000000\<rparr>"
    by blast
  from P have m: "millis ms" unfolding millis_atoi by blast
  from dd have "1 \<le> number d" "number d \<le> daysIn (number mo) (number y)"
    by (simp_all add: f not_less)
  with s D P(1) m R show "layoutAccepts s"
    unfolding layoutAccepts_def by blast
next
  assume "layoutAccepts s"
  then obtain y mo d sp h mi se p ms where
      s: "s = y @ ''-'' @ mo @ ''-'' @ d @ sp @ h @ '':'' @ mi @ '':'' @ se @ [p] @ ms"
    and D: "digits 4 y" "digits 2 mo" "digits 2 d" "spaces sp" "digits 1 h \<or> digits 2 h"
      "digits 2 mi" "digits 2 se"
    and P: "p = CHR ''.'' \<or> p = CHR '',''" "millis ms"
    and R: "1 \<le> number mo" "number mo \<le> 12" "number h < 24" "number mi < 60" "number se < 60"
    and Day: "1 \<le> number d" "number d \<le> daysIn (number mo) (number y)"
    unfolding layoutAccepts_def by blast
  from P(2) obtain ns where ns: "length ms = 3" "atoi ms = Some ns" "0 \<le> ns"
    unfolding millis_atoi by blast
  let ?f = "noFields\<lparr>year := number y, month := number mo, day := number d,
                 hour := number h, minute := number mi, sec := number se, nsec := ns * 1000000\<rparr>"
  have "parseLoop sunshineLayout s noFields = Inr ?f"
    unfolding parseLoop_sunshine_iff using s D P(1) ns R by blast
  then show "\<exists>t. ParseInLocation sunshineLayout s loc = Inr t"
    using Day by (simp add: ParseInLocation_def not_less)
qed

lemma ParseInLocation_rejects_iff:
  "(\<exists>e. ParseInLocation sunshineLayout s loc = Inl e) \<longleftrightarrow> \<not> layoutAccepts s"
  using ParseInLocation_accepts_iff [of s loc]
  by (cases "ParseInLocation sunshineLayout s loc") auto

lemma matchesPattern_layoutAccepts: "matchesPattern s \<Longrightarrow> layoutAccepts s"
  using matchesPattern_parses [of s UTC] ParseInLocation_accepts_iff [of s UTC] by blast

text \<open>Where the reading of the layout goes beyond the strict pattern: in the number
  of spaces, in an hour of one digit, in a comma, and in a sign in the
  milliseconds.  A text of 23 bytes that the layout accepts, with a digit
  at index 11, a period at index 19 and a digit after it, matches the pattern.\<close>

lemma layoutAccepts_strict:
  assumes "layoutAccepts s" and "length s = 23" and "digitChar (s ! 11)"
    and "s ! 19 = CHR ''.''" and "digitChar (s ! 20)"
  shows "matchesPattern s"
proof -
  from assms(1) obtain y mo d sp h mi se p ms where
      s: "s = y @ ''-'' @ mo @ ''-'' @ d @ sp @ h @ '':'' @ mi @ '':'' @ se @ [p] @ ms"
    and D: "digits 4 y" "digits 2 mo" "digits 2 d" "spaces sp" "digits 1 h \<or> digits 2 h"
      "digits 2 mi" "digits 2 se"
    and P: "p = CHR ''.'' \<or> p = CHR '',''" "millis ms"
    and R: "1 \<le> number mo" "number mo \<le> 12" "number h < 24" "number mi < 60" "number se < 60"
    and Day: "1 \<le> number d" "number d \<le> daysIn (number mo) (number y)"
    unfolding layoutAccepts_def by blast
  from D(1) obtain y1 y2 y3 y4 where y: "y = [y1, y2, y3, y4]"
    and Dy: "digitChar y1" "digitChar y2" "digitChar y3" "digitChar y4"
    by (auto simp: digits_4)
  from D(2) obtain m1 m2 where mo: "mo = [m1, m2]" and Dm: "digitChar m1" "digitChar m2"
    by (auto simp: digits_2)
  from D(3) obtain d1 d2 where d: "d = [d1, d2]" and Dd: "digitChar d1" "digitChar d2"
    by (auto simp: digits_2)
  from D(6) obtain n1 n2 where mi: "mi = [n1, n2]" and Dn: "digitChar n1" "digitChar n2"
    by (auto simp: digits_2)
  from D(7) obtain s1 s2 where se: "se = [s1, s2]" and Ds: "digitChar s1" "digitChar s2"
    by (auto simp: digits_2)
  from P(2) have "length ms = 3" by (simp add: millis_def)
  then obtain a b c where ms: "ms = [a, b, c]"
    using length_3_cases by blast
  from D(4) obtain sp' where sp: "sp = CHR '' '' # sp'" and sp': "list_all (\<lambda>c. c = CHR '' '') sp'"
    by (cases sp) (auto simp: spaces_def)
  have len: "length sp' + length h = 2"
    using assms(2) by (simp add: s y mo d mi se ms sp)
  have nsp: "\<not> digitChar (CHR '' '')" by (simp add: digitChar_def)
  have sp'_nil: "sp' = []"
  proof (cases sp')
    case Nil
    then show ?thesis .
  next
    case (Cons x xs)
    with sp' have "x = CHR '' ''" by simp
    with Cons have "s ! 11 = CHR '' ''" by (simp add: s y mo d sp)
    with assms(3) nsp show ?thesis by simp
  qed
  with len have "length h = 2" by simp
  with D(5) obtain h1 h2 where h: "h = [h1, h2]" and Dh: "digitChar h1" "digitChar h2"
    by (auto simp: digits_def length_Suc_conv numeral_2_eq_2)
  have sx: "s = [y1, y2, y3, y4, CHR ''-'', m1, m2, CHR ''-'', d1, d2, CHR '' '',
                 h1, h2, CHR '':'', n1, n2, CHR '':'', s1, s2, p, a, b, c]"
    by (simp add: s y mo d sp sp'_nil h mi se ms)
  from assms(4) have p: "p = CHR ''.''" by (simp add: sx)
  from assms(5) have Da: "digitChar a" by (simp add: sx)
  then have "a \<noteq> CHR ''+''" "a \<noteq> CHR ''-''" using digitChar_not_sign by blast+
  with P(2) have Dbc: "digitChar b" "digitChar c" by (auto simp: millis_def ms)
  show ?thesis
    using Dy Dm Dd Dh Dn Ds Da Dbc R Day
    by (simp add: matchesPattern_def sx p isDigit_def digitChar_def [symmetric] num2_def num4_def
        y mo d h mi se number_simps algebra_simps)
qed

text \<open>The cases the specification names.  Text after a timestamp of the strict
  pattern is refused, with the left-over text quoted in the message.\<close>

lemma parseLoop_strict_extra:
  assumes D: "digitChar y1" "digitChar y2" "digitChar y3" "digitChar y4"
      "digitChar m1" "digitChar m2" "digitChar d1" "digitChar d2"
      "digitChar h1" "digitChar h2" "digitChar n1" "digitChar n2"
      "digitChar s1" "digitChar s2" "digitChar f1" "digitChar f2" "digitChar f3"
    and R: "1 \<le> digitVal m1 * 10 + digitVal m2" "digitVal m1 * 10 + digitVal m2 \<le> 12"
      "digitVal h1 * 10 + digitVal h2 < 24" "digitVal n1 * 10 + digitVal n2 < 60"
      "digitVal s1 * 10 + digitVal s2 < 60"
    and X: "x \<noteq> []"
  shows "parseLoop sunshineLayout
           (y1 # y2 # y3 # y4 # CHR ''-'' # m1 # m2 # CHR ''-'' # d1 # d2 # CHR '' '' #
            h1 # h2 # CHR '':'' # n1 # n2 # CHR '':'' # s1 # s2 # CHR ''.'' # f1 # f2 # f3 # x)
           noFields
         = Inl (ParseError '''' ('': extra text: '' @ quote x))"
proof -
  note D' = D [unfolded digitChar_isDigit]
  have r: "0 \<le> digitVal h1" "0 \<le> digitVal h2" "0 \<le> digitVal n1" "0 \<le> digitVal n2"
      "0 \<le> digitVal s1" "0 \<le> digitVal s2" "0 \<le> digitVal f1" "0 \<le> digitVal f2"
      "0 \<le> digitVal f3"
    using D' digitVal_range by blast+
  have year: "parseStd stdLongYear (y1 # y2 # y3 # y4 # rest) f
     = Got (rest,
            f\<lparr>year := (digitVal y1 * 10 + digitVal y2) * 100 + (digitVal y3 * 10 + digitVal y4)\<rparr>)"
    for f rest
    using D(1) by (simp add: isDigit_head atoi_four_digits [OF D'(1-4)])
  have frac: "parseStd (stdFracSecond0 3) (CHR ''.'' # f1 # f2 # f3 # x) f
     = Got (x, f\<lparr>nsec := (digitVal f1 * 100 + digitVal f2 * 10 + digitVal f3) * 1000000\<rparr>)" for f
    using r by (simp add: parseNanoseconds_def commaOrPeriod_def atoi_three_digits [OF D'(15-17)])
  show ?thesis
    using R r X
    by (simp del: skip.simps parseStd.simps
        add: sunshineLayout_def year frac skip_char skip_nothing skip_space_digit [OF D'(9)]
          parseStd.simps(2-6) getnum_two_digits [OF D'(5,6)] getnum_two_digits [OF D'(7,8)]
          getnum_two_digits [OF D'(9,10)] getnum_two_digits [OF D'(11,12)]
          getnum_two_digits [OF D'(13,14)] noFields_def)
qed

lemma matchesPattern_extra_text:
  assumes "matchesPattern s" and "x \<noteq> []"
  shows "ParseInLocation sunshineLayout (s @ x) loc
           = Inl (ParseError '''' ('': extra text: '' @ quote x))"
proof -
  from assms have "length s = 23" by (simp add: matchesPattern_def)
  then obtain c0 c1 c2 c3 c4 c5 c6 c7 c8 c9 c10 c11 c12 c13 c14 c15 c16 c17 c18 c19 c20 c21 c22
    where s: "s = [c0, c1, c2, c3, c4, c5, c6, c7, c8, c9, c10, c11, c12, c13, c14, c15, c16,
              c17, c18, c19, c20, c21, c22]"
    by (rule length_23)
  from assms have sep: "c4 = CHR ''-''" "c7 = CHR ''-''" "c10 = CHR '' ''"
      "c13 = CHR '':''" "c16 = CHR '':''" "c19 = CHR ''.''"
    by (simp_all add: matchesPattern_def s)
  from assms have D: "digitChar c0" "digitChar c1" "digitChar c2" "digitChar c3"
      "digitChar c5" "digitChar c6" "digitChar c8" "digitChar c9"
      "digitChar c11" "digitChar c12" "digitChar c14" "digitChar c15"
      "digitChar c17" "digitChar c18" "digitChar c20" "digitChar c21" "digitChar c22"
    by (simp_all add: matchesPattern_def s isDigit_def digitChar_def)
  from assms have R: "1 \<le> digitVal c5 * 10 + digitVal c6" "digitVal c5 * 10 + digitVal c6 \<le> 12"
      "digitVal c11 * 10 + digitVal c12 < 24" "digitVal c14 * 10 + digitVal c15 < 60"
      "digitVal c17 * 10 + digitVal c18 < 60"
    by (simp_all add: matchesPattern_def s num2_def)
  show ?thesis
    by (simp add: ParseInLocation_def s sep parseLoop_strict_extra [OF D R assms(2)]
        del: parseLoop.simps)
qed

text \<open>Whatever the layout accepts has at least 22 bytes and starts with a date of
  the form \<^verbatim>\<open>YYYY-MM-DD\<close> and a space.\<close>

lemma layoutAccepts_date_part:
  assumes "layoutAccepts s"
  shows "22 \<le> length s
       \<and> list_all (isDigit s) [0, 1, 2, 3, 5, 6, 8, 9]
       \<and> s ! 4 = CHR ''-'' \<and> s ! 7 = CHR ''-'' \<and> s ! 10 = CHR '' ''"
proof -
  from assms obtain y mo d sp h mi se p ms where
      s: "s = y @ ''-'' @ mo @ ''-'' @ d @ sp @ h @ '':'' @ mi @ '':'' @ se @ [p] @ ms"
    and D: "digits 4 y" "digits 2 mo" "digits 2 d" "spaces sp" "digits 1 h \<or> digits 2 h"
      "digits 2 mi" "digits 2 se"
    and P: "millis ms"
    unfolding layoutAccepts_def by blast
  from D(1) obtain y1 y2 y3 y4 where y: "y = [y1, y2, y3, y4]"
    and Dy: "digitChar y1" "digitChar y2" "digitChar y3" "digitChar y4"
    by (auto simp: digits_4)
  from D(2) obtain m1 m2 where mo: "mo = [m1, m2]" and Dm: "digitChar m1" "digitChar m2"
    by (auto simp: digits_2)
  from D(3) obtain d1 d2 where d: "d = [d1, d2]" and Dd: "digitChar d1" "digitChar d2"
    by (auto simp: digits_2)
  from D(4) obtain sp' where sp: "sp = CHR '' '' # sp'"
    by (cases sp) (auto simp: spaces_def)
  from D(5) have h: "1 \<le> length h" by (auto simp: digits_def)
  from D(6,7) have l2: "length mi = 2" "length se = 2" by (simp_all add: digits_def)
  from P have l3: "length ms = 3" by (simp add: millis_def)
  have "22 \<le> length s"
    using h l2 l3 by (simp add: s y mo d sp)
  moreover have "list_all (isDigit s) [0, 1, 2, 3, 5, 6, 8, 9]"
    using Dy Dm Dd by (simp add: s y mo d sp isDigit_def digitChar_def)
  moreover have "s ! 4 = CHR ''-'' \<and> s ! 7 = CHR ''-'' \<and> s ! 10 = CHR '' ''"
    by (simp add: s y mo d sp)
  ultimately show ?thesis by blast
qed

text \<open>A text with the digits and the separators of the strict pattern in their
  places is accepted exactly when month, day, hour, minute and second are in
  range.\<close>

lemma strict_shape_accepted_iff:
  assumes "length s = 23"
    and "list_all (isDigit s) [0, 1, 2, 3, 5, 6, 8, 9, 11, 12, 14, 15, 17, 18, 20, 21, 22]"
    and "s ! 4 = CHR ''-''" and "s ! 7 = CHR ''-''" and "s ! 10 = CHR '' ''"
    and "s ! 13 = CHR '':''" and "s ! 16 = CHR '':''" and "s ! 19 = CHR ''.''"
  shows "layoutAccepts s \<longleftrightarrow>
           1 \<le> num2 s 5 \<and> num2 s 5 \<le> 12
           \<and> 1 \<le> num2 s 8 \<and> num2 s 8 \<le> daysIn (num2 s 5) (num4 s 0)
           \<and> num2 s 11 < 24 \<and> num2 s 14 < 60 \<and> num2 s 17 < 60"
proof -
  from assms(2) have d: "digitChar (s ! 11)" "digitChar (s ! 20)"
    by (simp_all add: isDigit_def digitChar_def)
  have m: "matchesPattern s \<longleftrightarrow>
           1 \<le> num2 s 5 \<and> num2 s 5 \<le> 12
           \<and> 1 \<le> num2 s 8 \<and> num2 s 8 \<le> daysIn (num2 s 5) (num4 s 0)
           \<and> num2 s 11 < 24 \<and> num2 s 14 < 60 \<and> num2 s 17 < 60"
    unfolding matchesPattern_def using assms by blast
  have "layoutAccepts s \<longleftrightarrow> matchesPattern s"
    using layoutAccepts_strict [OF _ assms(1) d(1) assms(8) d(2)] matchesPattern_layoutAccepts
    by blast
  with m show ?thesis by simp
qed

section \<open>One call of the tracker\<close>

text \<open>A call whose three accesses of the log succeed, written out: \<open>g2\<close> is the state
  after the size comparison and the update of \<open>lastLogSize\<close>, before the scan.\<close>

lemma isMonitorMissing_read_ok:
  assumes "statSize file = Inr logSize" and "opened file = Inr content"
    and "scanTokens content (readErr file) = (lines, None)"
    and "walkLog c loc zeroTime lines = Some latestOccurrence"
    and "g2 = (if logSize < lastLogSize g then resetMonitorTracking g else g)\<lparr>lastLogSize := logSize\<rparr>"
  shows "isMonitorMissing c loc file g =
     Some (if IsZero latestOccurrence then (resetMonitorTracking g2, False, None)
           else if IsZero (lastMonitorMissingTime g2) \<or> After latestOccurrence (lastMonitorMissingTime g2)
           then (g2\<lparr>lastMonitorMissingTime := latestOccurrence\<rparr>, True, None)
           else (g2, False, None))"
  using assms by (simp add: isMonitorMissing_def Let_def)

lemma isMonitorMissing_returns: "\<exists>g' new err. isMonitorMissing c loc file g = Some (g', new, err)"
proof -
  have w: "\<And>lines. \<exists>t. walkLog c loc zeroTime lines = Some t"
    by (simp add: walkLog_fold)
  show ?thesis
  proof (cases "statSize file")
    case (Inl err)
    then show ?thesis by (auto simp: isMonitorMissing_def)
  next
    case st: (Inr logSize)
    show ?thesis
    proof (cases "opened file")
      case (Inl err)
      with st show ?thesis by (auto simp: isMonitorMissing_def Let_def)
    next
      case op: (Inr content)
      obtain lines scanErr where sc: "scanTokens content (readErr file) = (lines, scanErr)"
        by (cases "scanTokens content (readErr file)") auto
      obtain t where t: "walkLog c loc zeroTime lines = Some t" using w by blast
      show ?thesis using st op sc t
        by (cases scanErr) (auto simp: isMonitorMissing_def Let_def)
    qed
  qed
qed

lemma isMonitorMissing_lastLogSize:
  assumes "statSize file = Inr logSize" and "isMonitorMissing c loc file g = Some (g', new, err)"
  shows "lastLogSize g' = logSize"
  using assms
  by (auto simp: isMonitorMissing_def Let_def resetMonitorTracking_def
      split: sum.splits prod.splits option.splits if_splits)

lemma commandAndArgs_nonempty: "a \<noteq> [] \<Longrightarrow> commandAndArgs a = Some (hd a, tl a)"
  by (cases a) (simp_all add: commandAndArgs_def elemAt_def sliceFrom_def drop_Suc)

lemma Split_space_nonempty: "Split s '' '' \<noteq> []"
  using Split_nonempty [of s "'' ''"] by simp

section \<open>Successive ticks on a log that only grows\<close>

lemma logLines_read:
  "opened file = Inr content \<Longrightarrow> scanTokens content (readErr file) = (lines, e)
     \<Longrightarrow> logLines file = lines"
  by (simp add: logLines_def)

text \<open>A call that returns without error, in terms of the value the scan ends with.\<close>

lemma tick_no_error:
  assumes "isMonitorMissing c loc file g = Some (g', new, None)"
  shows "\<exists>logSize t. statSize file = Inr logSize
       \<and> walkLog c loc zeroTime (logLines file) = Some t
       \<and> lastLogSize g' = logSize
       \<and> (if t = zeroTime then \<not> new \<and> lastMonitorMissingTime g' = zeroTime
           else if (if logSize < lastLogSize g then zeroTime else lastMonitorMissingTime g) = zeroTime
                   \<or> (if logSize < lastLogSize g then zeroTime else lastMonitorMissingTime g) < t
           then new \<and> lastMonitorMissingTime g' = t
           else \<not> new \<and> lastMonitorMissingTime g' = lastMonitorMissingTime g)"
proof -
  from assms obtain logSize where st: "statSize file = Inr logSize"
    by (cases "statSize file") (auto simp: isMonitorMissing_def)
  from assms st obtain content where op: "opened file = Inr content"
    by (cases "opened file") (auto simp: isMonitorMissing_def Let_def)
  obtain lines scanErr where sc: "scanTokens content (readErr file) = (lines, scanErr)"
    by (cases "scanTokens content (readErr file)") auto
  obtain t where w: "walkLog c loc zeroTime lines = Some t"
    by (simp add: walkLog_fold)
  from assms st op sc w have none: "scanErr = None"
    by (cases scanErr) (auto simp: isMonitorMissing_def Let_def)
  have ll: "logLines file = lines" using op sc by (rule logLines_read)
  from isMonitorMissing_read_ok [OF st op sc [unfolded none] w refl, of g] assms
  show ?thesis
    using st w ll
    by (auto simp: IsZero_def After_def zeroTime_def resetMonitorTracking_def split: if_splits)
qed

lemma grows_size:
  "grows a b \<Longrightarrow> statSize a = Inr sa \<Longrightarrow> statSize b = Inr sb \<Longrightarrow> sa \<le> sb"
  by (simp add: grows_def)

lemma grows_latest:
  assumes "grows a b" and "walkLog c loc zeroTime (logLines a) = Some t"
    and "walkLog c loc zeroTime (logLines b) = Some t'"
  shows "t \<le> t'"
proof -
  from assms(1) have "prefix (logLines a) (logLines b)"
    by (auto simp: grows_def split: sum.splits)
  then show ?thesis using assms(2,3) by (rule walkLog_prefix_mono)
qed

lemma mainLoop_step:
  "isMonitorMissing c loc file g = Some (g', new, None) \<Longrightarrow>
     mainLoop c loc g (file # files)
       = (if new then [lastMonitorMissingTime g'] else []) @ mainLoop c loc g' files"
  by simp

lemma mainLoop_stops:
  "isMonitorMissing c loc file g = None \<or> (\<exists>g' new e. isMonitorMissing c loc file g = Some (g', new, Some e))
     \<Longrightarrow> mainLoop c loc g (file # files) = []"
  by auto

lemma tick_outcomes:
  obtains (stops) "mainLoop c loc g (file # files) = []"
  | (goes_on) g' new where "isMonitorMissing c loc file g = Some (g', new, None)"
proof (cases "isMonitorMissing c loc file g")
  case None
  then show ?thesis using stops mainLoop_stops by blast
next
  case (Some r)
  obtain g' new err where r: "r = (g', new, err)" by (cases r) auto
  show ?thesis
  proof (cases err)
    case None
    with Some r show ?thesis using goes_on by simp
  next
    case (Some e)
    with \<open>isMonitorMissing c loc file g = Some r\<close> r show ?thesis
      using stops mainLoop_stops by blast
  qed
qed

declare mainLoop.simps [simp del]

text \<open>Once a timestamp is handled and the log holds an occurrence, every later
  detection on the growing log has a timestamp after the handled one.\<close>

lemma later_detections:
  assumes "successively grows (file # files)"
    and "\<And>logSize. statSize file = Inr logSize \<Longrightarrow> lastLogSize g \<le> logSize"
    and "lastMonitorMissingTime g \<noteq> zeroTime"
    and "walkLog c loc zeroTime (logLines file) = Some t" and "t \<noteq> zeroTime"
  shows "\<forall>d \<in> set (mainLoop c loc g (file # files)). lastMonitorMissingTime g < d"
  using assms
proof (induction files arbitrary: "file" g t)
  case Nil
  show ?case
  proof (cases c loc g "file" "[] :: logFile list" rule: tick_outcomes)
    case stops
    then show ?thesis by simp
  next
    case (goes_on g' new)
    from tick_no_error [OF goes_on] Nil.prems(2-5)
    have "new \<longrightarrow> lastMonitorMissingTime g < lastMonitorMissingTime g'"
      by (auto split: if_splits)
    then show ?thesis by (simp add: mainLoop_step [OF goes_on] mainLoop.simps(1))
  qed
next
  case (Cons f2 fs)
  show ?case
  proof (cases c loc g "file" "f2 # fs" rule: tick_outcomes)
    case stops
    then show ?thesis by simp
  next
    case (goes_on g' new)
    from tick_no_error [OF goes_on] Cons.prems(2-5)
    obtain logSize where st: "statSize file = Inr logSize"
      and sz: "lastLogSize g' = logSize"
      and new: "new \<longrightarrow> lastMonitorMissingTime g < lastMonitorMissingTime g'"
      and le: "lastMonitorMissingTime g \<le> lastMonitorMissingTime g'"
      and nz: "lastMonitorMissingTime g' \<noteq> zeroTime"
      by (auto split: if_splits)
    have gr: "grows file f2" and succ: "successively grows (f2 # fs)"
      using Cons.prems(1) by simp_all
    obtain t2 where w2: "walkLog c loc zeroTime (logLines f2) = Some t2"
      by (simp add: walkLog_fold)
    have "t \<le> t2" using gr Cons.prems(4) w2 by (rule grows_latest)
    moreover have "zeroTime \<le> t" using Cons.prems(4) by (rule walkLog_ge)
    ultimately have t2: "t2 \<noteq> zeroTime" using Cons.prems(5) by simp
    have size2: "\<And>s2. statSize f2 = Inr s2 \<Longrightarrow> lastLogSize g' \<le> s2"
      using grows_size [OF gr st] sz by simp
    have ih: "\<forall>d \<in> set (mainLoop c loc g' (f2 # fs)). lastMonitorMissingTime g' < d"
      using Cons.IH [OF succ size2 nz w2 t2] by simp
    have "\<forall>d \<in> set (mainLoop c loc g' (f2 # fs)). lastMonitorMissingTime g < d"
    proof
      fix d assume "d \<in> set (mainLoop c loc g' (f2 # fs))"
      with ih have "lastMonitorMissingTime g' < d" by blast
      with le show "lastMonitorMissingTime g < d" by linarith
    qed
    then show ?thesis
      using new by (auto simp: mainLoop_step [OF goes_on])
  qed
qed

text \<open>The timestamps of the detections of a run on a growing log are strictly
  increasing, and each is the \<open>latestOccurrence\<close> of the tick that reported it.\<close>

lemma detections_increase:
  assumes "successively grows files"
  shows "sorted_wrt (<) (mainLoop c loc g files)"
  using assms
proof (induction files arbitrary: g)
  case Nil
  show ?case by (simp add: mainLoop.simps(1))
next
  case (Cons f fs)
  have succ: "successively grows fs"
    using Cons.prems by (cases fs) simp_all
  show ?case
  proof (cases c loc g f fs rule: tick_outcomes)
    case stops
    then show ?thesis by simp
  next
    case (goes_on g' new)
    have rest: "sorted_wrt (<) (mainLoop c loc g' fs)"
      using Cons.IH [OF succ] .
    show ?thesis
    proof (cases new)
      case False
      with rest show ?thesis by (simp add: mainLoop_step [OF goes_on])
    next
      case True
      from tick_no_error [OF goes_on] True
      obtain logSize t where st: "statSize f = Inr logSize"
        and w: "walkLog c loc zeroTime (logLines f) = Some t"
        and sz: "lastLogSize g' = logSize"
        and t: "lastMonitorMissingTime g' = t" "t \<noteq> zeroTime"
        by (auto split: if_splits)
      have "\<forall>d \<in> set (mainLoop c loc g' fs). lastMonitorMissingTime g' < d"
      proof (cases fs)
        case Nil
        then show ?thesis by (simp add: mainLoop.simps(1))
      next
        case (Cons f2 fs')
        have gr: "grows f f2" and succ2: "successively grows (f2 # fs')"
          using Cons.prems Cons by simp_all
        obtain t2 where w2: "walkLog c loc zeroTime (logLines f2) = Some t2"
          by (simp add: walkLog_fold)
        have "t \<le> t2" using gr w w2 by (rule grows_latest)
        moreover have "zeroTime \<le> t" using w by (rule walkLog_ge)
        ultimately have t2: "t2 \<noteq> zeroTime" using t(2) by simp
        have size2: "\<And>s2. statSize f2 = Inr s2 \<Longrightarrow> lastLogSize g' \<le> s2"
          using grows_size [OF gr st] sz by simp
        have nz: "lastMonitorMissingTime g' \<noteq> zeroTime" using t by simp
        show ?thesis
          using later_detections [OF succ2 size2 nz w2 t2] Cons by simp
      qed
      with rest True show ?thesis by (simp add: mainLoop_step [OF goes_on])
    qed
  qed
qed

lemma detections_are_latest:
  "\<forall>d \<in> set (mainLoop c loc g files).
     \<exists>f \<in> set files. walkLog c loc zeroTime (logLines f) = Some d"
proof (induction files arbitrary: g)
  case Nil
  show ?case by (simp add: mainLoop.simps(1))
next
  case (Cons f fs)
  show ?case
  proof (cases c loc g f fs rule: tick_outcomes)
    case stops
    then show ?thesis by simp
  next
    case (goes_on g' new)
    from tick_no_error [OF goes_on]
    have "new \<longrightarrow> walkLog c loc zeroTime (logLines f) = Some (lastMonitorMissingTime g')"
      by (auto split: if_splits)
    then show ?thesis
      using Cons.IH [of g'] by (auto simp: mainLoop_step [OF goes_on])
  qed
qed

section \<open>The claims\<close>

text \<open>
  \<^bold>\<open>C1.\<close>  Over any run of ticks on a log that is not rotated and to which lines
  are only added (each tick finds a size not below the previous one, and the
  previous lines at the start of its own), from any state of the tracker: the
  timestamps for which the tracker reports a new trigger are strictly
  increasing, so no timestamp is reported twice, and each is the
  \<open>latestOccurrence\<close> of the content scanned at its tick.
\<close>

theorem C1_at_most_once_per_timestamp:
  assumes "successively grows files"
  shows "distinct (mainLoop c loc g files)
       \<and> sorted_wrt (<) (mainLoop c loc g files)
       \<and> (\<forall>d \<in> set (mainLoop c loc g files).
             \<exists>f \<in> set files. walkLog c loc zeroTime (logLines f) = Some d)"
  using detections_increase [OF assms, of c loc g] detections_are_latest [of c loc g files]
  by (simp add: strict_sorted_iff)

theorem C1_witness:
  "mainLoop exampleConfig UTC initialGlobals [log1, log1, log1, log2, log2]
     = [63839700000000000000, 63839700005250000000]
   \<and> distinct (mainLoop exampleConfig UTC initialGlobals [log1, log1, log1, log2, log2])"
proof -
  have h: "successively grows [log1, log1, log1, log2, log2]" by code_simp
  have e: "mainLoop exampleConfig UTC initialGlobals [log1, log1, log1, log2, log2]
     = [63839700000000000000, 63839700005250000000]"
    by code_simp
  from C1_at_most_once_per_timestamp [OF h, of exampleConfig UTC initialGlobals] e
  show ?thesis by simp
qed

text \<open>
  \<^bold>\<open>C2.\<close>  In the form that holds of the program: whenever \<^verbatim>\<open>os.Stat\<close> succeeds, the
  call leaves \<open>lastLogSize\<close> at the size just observed, whatever else happens.
  When that size is smaller than the previous \<open>lastLogSize\<close>,
  \<open>lastMonitorMissingTime\<close> is reset before the file is opened and scanned: a
  failing \<^verbatim>\<open>os.Open\<close> already leaves it at the zero time.  After such a reset, a
  scan in which some line contains the trigger substring and parses to a
  timestamp after the zero time returns \<open>true\<close> and stores the maximum of those
  timestamps, whatever timestamp was handled before, earlier, equal or later.  A
  scan in which no such timestamp is after the zero time returns \<open>false\<close> and
  leaves \<open>lastMonitorMissingTime\<close> at the zero time.
\<close>

theorem C2_rotation_resets_then_triggers:
  assumes "statSize file = Inr logSize"
  shows "(\<exists>g' new err. isMonitorMissing c loc file g = Some (g', new, err)
                        \<and> lastLogSize g' = logSize)
       \<and> (logSize < lastLogSize g \<longrightarrow> opened file = Inl e \<longrightarrow>
            isMonitorMissing c loc file g =
              Some (\<lparr>lastLogSize = logSize, lastMonitorMissingTime = zeroTime\<rparr>, False, Some e))
       \<and> (logSize < lastLogSize g \<longrightarrow> opened file = Inr content \<longrightarrow>
            scanTokens content (readErr file) = (lines, None) \<longrightarrow>
            (\<exists>t \<in> set (entryTimes c loc lines). After t zeroTime) \<longrightarrow>
            isMonitorMissing c loc file g =
              Some (\<lparr>lastLogSize = logSize,
                     lastMonitorMissingTime = Max (set (entryTimes c loc lines))\<rparr>, True, None))
       \<and> (logSize < lastLogSize g \<longrightarrow> opened file = Inr content \<longrightarrow>
            scanTokens content (readErr file) = (lines, None) \<longrightarrow>
            (\<forall>t \<in> set (entryTimes c loc lines). \<not> After t zeroTime) \<longrightarrow>
            isMonitorMissing c loc file g =
              Some (\<lparr>lastLogSize = logSize, lastMonitorMissingTime = zeroTime\<rparr>, False, None))"
proof -
  have rot: "isMonitorMissing c loc file g =
      Some (if IsZero t then (\<lparr>lastLogSize = logSize, lastMonitorMissingTime = zeroTime\<rparr>, False, None)
            else (\<lparr>lastLogSize = logSize, lastMonitorMissingTime = t\<rparr>, True, None))"
    if "logSize < lastLogSize g" and "opened file = Inr content"
      and "scanTokens content (readErr file) = (lines, None)"
      and "walkLog c loc zeroTime lines = Some t" for t
    using isMonitorMissing_read_ok [OF assms that(2,3,4) refl, of g] that(1)
    by (simp add: resetMonitorTracking_def IsZero_def zeroTime_def)
  have a: "\<exists>g' new err. isMonitorMissing c loc file g = Some (g', new, err)
                        \<and> lastLogSize g' = logSize"
  proof -
    obtain g' new err where r: "isMonitorMissing c loc file g = Some (g', new, err)"
      using isMonitorMissing_returns by blast
    then have "lastLogSize g' = logSize"
      using assms isMonitorMissing_lastLogSize by blast
    with r show ?thesis by blast
  qed
  have b: "isMonitorMissing c loc file g =
      Some (\<lparr>lastLogSize = logSize, lastMonitorMissingTime = zeroTime\<rparr>, False, Some e)"
    if "logSize < lastLogSize g" and "opened file = Inl e"
    using assms that by (simp add: isMonitorMissing_def Let_def resetMonitorTracking_def)
  have p: "isMonitorMissing c loc file g =
      Some (\<lparr>lastLogSize = logSize,
             lastMonitorMissingTime = Max (set (entryTimes c loc lines))\<rparr>, True, None)"
    if "logSize < lastLogSize g" and "opened file = Inr content"
      and "scanTokens content (readErr file) = (lines, None)"
      and "\<exists>t \<in> set (entryTimes c loc lines). After t zeroTime"
    using rot [OF that(1-3) walkLog_present(1) [OF that(4)]] walkLog_present(2) [OF that(4)]
    by simp
  have n: "isMonitorMissing c loc file g =
      Some (\<lparr>lastLogSize = logSize, lastMonitorMissingTime = zeroTime\<rparr>, False, None)"
    if "logSize < lastLogSize g" and "opened file = Inr content"
      and "scanTokens content (readErr file) = (lines, None)"
      and "\<forall>t \<in> set (entryTimes c loc lines). \<not> After t zeroTime"
    using rot [OF that(1-3) walkLog_absent [OF that(4)]]
    by (simp add: IsZero_def zeroTime_def)
  from a b p n show ?thesis by blast
qed

theorem C2_witness:
  "isMonitorMissing exampleConfig UTC log1
     \<lparr>lastLogSize = 176, lastMonitorMissingTime = 63839700005250000000\<rparr>
   = Some (\<lparr>lastLogSize = 51, lastMonitorMissingTime = 63839700000000000000\<rparr>, True, None)
   \<and> isMonitorMissing exampleConfig UTC logUnreadable
     \<lparr>lastLogSize = 176, lastMonitorMissingTime = 63839700005250000000\<rparr>
   = Some (\<lparr>lastLogSize = 51, lastMonitorMissingTime = zeroTime\<rparr>, False,
           Some (PathError ''permission denied''))"
proof -
  let ?g = "\<lparr>lastLogSize = 176, lastMonitorMissingTime = 63839700005250000000\<rparr>"
  have h1: "statSize log1 = Inr 51" by (simp add: log1_def)
  have h2: "(51::int) < lastLogSize ?g" by simp
  have h3: "opened log1 = Inr (line1 @ nl)" by (simp add: log1_def)
  have h4: "scanTokens (line1 @ nl) (readErr log1) = ([line1], None)" by code_simp
  have e: "entryTimes exampleConfig UTC [line1] = [63839700000000000000]" by code_simp
  have h5: "\<exists>t \<in> set (entryTimes exampleConfig UTC [line1]). After t zeroTime"
    by (simp add: e After_def zeroTime_def)
  have u1: "statSize logUnreadable = Inr 51" by (simp add: logUnreadable_def)
  have u2: "opened logUnreadable = Inl (PathError ''permission denied'')"
    by (simp add: logUnreadable_def)
  from C2_rotation_resets_then_triggers [OF h1, of exampleConfig UTC ?g] h2 h3 h4 h5
  have "isMonitorMissing exampleConfig UTC log1 ?g
      = Some (\<lparr>lastLogSize = 51,
               lastMonitorMissingTime = Max (set (entryTimes exampleConfig UTC [line1]))\<rparr>,
              True, None)"
    by blast
  then have a: "isMonitorMissing exampleConfig UTC log1 ?g
      = Some (\<lparr>lastLogSize = 51, lastMonitorMissingTime = 63839700000000000000\<rparr>, True, None)"
    by (simp add: e)
  from C2_rotation_resets_then_triggers [OF u1, of exampleConfig UTC ?g] h2 u2
  have b: "isMonitorMissing exampleConfig UTC logUnreadable ?g
      = Some (\<lparr>lastLogSize = 51, lastMonitorMissingTime = zeroTime\<rparr>, False,
              Some (PathError ''permission denied''))"
    by blast
  from a b show ?thesis by simp
qed

theorem C2_counterexample:
  "statSize logYear0 = Inr 51
   \<and> (51::int) < lastLogSize \<lparr>lastLogSize = 176, lastMonitorMissingTime = 63839700005250000000\<rparr>
   \<and> entryTimes exampleConfig UTC (logLines logYear0) = [- 17236800000000000]
   \<and> isMonitorMissing exampleConfig UTC logYear0
        \<lparr>lastLogSize = 176, lastMonitorMissingTime = 63839700005250000000\<rparr>
      = Some (\<lparr>lastLogSize = 51, lastMonitorMissingTime = zeroTime\<rparr>, False, None)"
  by code_simp

text \<open>
  \<^bold>\<open>C3.\<close>  In the form that holds of the program: take a scan in which some line
  contains the trigger substring and parses to a timestamp after the zero time,
  so that \<open>latestOccurrence\<close> is present and is the maximum of those timestamps.
  Let \<open>handled\<close> be \<open>lastMonitorMissingTime\<close> as the comparison finds it (the zero
  time after a rotation, the stored value otherwise).  The call returns \<open>true\<close>
  and stores \<open>latestOccurrence\<close> exactly when \<open>handled\<close> is the zero time or
  \<open>latestOccurrence\<close> is after it; otherwise it returns \<open>false\<close> and the handled
  timestamp stays.  When the two are equal the call returns \<open>false\<close>,
  \<open>lastMonitorMissingTime\<close> is unchanged and \<open>lastLogSize\<close> is the size observed:
  the state is the one before the call only when the size has not changed.  A
  scan in which lines match and parse, but none to a timestamp after the zero
  time, counts as a scan without occurrence: \<open>false\<close>, and the zero time stored.
\<close>

theorem C3_new_trigger_iff_strictly_later:
  assumes "statSize file = Inr logSize" and "opened file = Inr content"
    and "scanTokens content (readErr file) = (lines, None)"
    and "handled = (if logSize < lastLogSize g then zeroTime else lastMonitorMissingTime g)"
    and "latestOccurrence = Max (set (entryTimes c loc lines))"
  shows "((\<exists>t \<in> set (entryTimes c loc lines). After t zeroTime) \<longrightarrow>
          isMonitorMissing c loc file g =
            Some (if IsZero handled \<or> After latestOccurrence handled
                  then (\<lparr>lastLogSize = logSize, lastMonitorMissingTime = latestOccurrence\<rparr>,
                        True, None)
                  else (\<lparr>lastLogSize = logSize, lastMonitorMissingTime = handled\<rparr>,
                        False, None)))
       \<and> ((\<exists>t \<in> set (entryTimes c loc lines). After t zeroTime) \<and> latestOccurrence = handled \<longrightarrow>
            handled = lastMonitorMissingTime g
            \<and> isMonitorMissing c loc file g = Some (g\<lparr>lastLogSize := logSize\<rparr>, False, None))
       \<and> ((\<exists>t \<in> set (entryTimes c loc lines). After t zeroTime) \<and> latestOccurrence = handled
            \<and> logSize = lastLogSize g \<longrightarrow>
            isMonitorMissing c loc file g = Some (g, False, None))
       \<and> ((\<forall>t \<in> set (entryTimes c loc lines). \<not> After t zeroTime) \<longrightarrow>
            isMonitorMissing c loc file g =
              Some (\<lparr>lastLogSize = logSize, lastMonitorMissingTime = zeroTime\<rparr>, False, None))"
proof -
  have main: "isMonitorMissing c loc file g =
           Some (if IsZero handled \<or> After latestOccurrence handled
                 then (\<lparr>lastLogSize = logSize, lastMonitorMissingTime = latestOccurrence\<rparr>,
                       True, None)
                 else (\<lparr>lastLogSize = logSize, lastMonitorMissingTime = handled\<rparr>,
                       False, None))"
    if ex: "\<exists>t \<in> set (entryTimes c loc lines). After t zeroTime"
    using isMonitorMissing_read_ok
            [OF assms(1-3) walkLog_present(1) [OF ex, folded assms(5)] refl, of g]
      walkLog_present(2) [OF ex, folded assms(5)] assms(4)
    by (simp add: resetMonitorTracking_def)
  have eq: "handled = lastMonitorMissingTime g
      \<and> isMonitorMissing c loc file g = Some (g\<lparr>lastLogSize := logSize\<rparr>, False, None)"
    if ex: "\<exists>t \<in> set (entryTimes c loc lines). After t zeroTime"
      and tie: "latestOccurrence = handled"
  proof -
    from walkLog_present(2) [OF ex, folded assms(5)] tie have nz: "\<not> IsZero handled" by simp
    then have h: "handled = lastMonitorMissingTime g"
      using assms(4) by (auto simp: IsZero_def zeroTime_def split: if_splits)
    have "\<not> (IsZero handled \<or> After latestOccurrence handled)"
      using nz tie by (simp add: After_def)
    with main [OF ex] have "isMonitorMissing c loc file g
        = Some (\<lparr>lastLogSize = logSize, lastMonitorMissingTime = handled\<rparr>, False, None)"
      by simp
    moreover have "\<lparr>lastLogSize = logSize, lastMonitorMissingTime = handled\<rparr>
        = g\<lparr>lastLogSize := logSize\<rparr>"
      using h by (cases g) simp
    ultimately show ?thesis using h by simp
  qed
  have same: "isMonitorMissing c loc file g = Some (g, False, None)"
    if "\<exists>t \<in> set (entryTimes c loc lines). After t zeroTime"
      and "latestOccurrence = handled" and "logSize = lastLogSize g"
    using eq [OF that(1,2)] that(3) by simp
  have none: "isMonitorMissing c loc file g =
      Some (\<lparr>lastLogSize = logSize, lastMonitorMissingTime = zeroTime\<rparr>, False, None)"
    if "\<forall>t \<in> set (entryTimes c loc lines). \<not> After t zeroTime"
    using isMonitorMissing_read_ok [OF assms(1-3) walkLog_absent [OF that] refl, of g]
    by (simp add: resetMonitorTracking_def IsZero_def zeroTime_def)
  from main eq same none show ?thesis by blast
qed

theorem C3_witness:
  "isMonitorMissing exampleConfig UTC log1
     \<lparr>lastLogSize = 51, lastMonitorMissingTime = 63839700000000000000\<rparr>
   = Some (\<lparr>lastLogSize = 51, lastMonitorMissingTime = 63839700000000000000\<rparr>, False, None)
   \<and> isMonitorMissing exampleConfig UTC log2
     \<lparr>lastLogSize = 51, lastMonitorMissingTime = 63839700000000000000\<rparr>
   = Some (\<lparr>lastLogSize = 176, lastMonitorMissingTime = 63839700005250000000\<rparr>, True, None)"
proof -
  let ?g = "\<lparr>lastLogSize = 51, lastMonitorMissingTime = 63839700000000000000\<rparr>"
  have h1: "statSize log1 = Inr 51" by (simp add: log1_def)
  have h2: "opened log1 = Inr (line1 @ nl)" by (simp add: log1_def)
  have h3: "scanTokens (line1 @ nl) (readErr log1) = ([line1], None)" by code_simp
  have e: "entryTimes exampleConfig UTC [line1] = [63839700000000000000]" by code_simp
  have h4: "63839700000000000000 = (if (51::int) < lastLogSize ?g then zeroTime
                                     else lastMonitorMissingTime ?g)"
    by simp
  have h5: "63839700000000000000 = Max (set (entryTimes exampleConfig UTC [line1]))"
    by (simp add: e)
  have h6: "(\<exists>t \<in> set (entryTimes exampleConfig UTC [line1]). After t zeroTime)
      \<and> (63839700000000000000::int) = 63839700000000000000 \<and> (51::int) = lastLogSize ?g"
    by (simp add: e After_def zeroTime_def)
  from C3_new_trigger_iff_strictly_later [OF h1 h2 h3 h4 h5] h6
  have a: "isMonitorMissing exampleConfig UTC log1 ?g = Some (?g, False, None)"
    by blast
  have k1: "statSize log2 = Inr 176" by (simp add: log2_def)
  have k2: "opened log2 = Inr (line1 @ nl @ lineInfo @ nl @ lineBad @ nl @ line2 @ nl)"
    by (simp add: log2_def)
  have k3: "scanTokens (line1 @ nl @ lineInfo @ nl @ lineBad @ nl @ line2 @ nl) (readErr log2)
      = ([line1, lineInfo, lineBad, line2], None)"
    by code_simp
  have e2: "entryTimes exampleConfig UTC [line1, lineInfo, lineBad, line2]
      = [63839700000000000000, 63839700005250000000]"
    by code_simp
  have k4: "63839700000000000000 = (if (176::int) < lastLogSize ?g then zeroTime
                                     else lastMonitorMissingTime ?g)"
    by simp
  have k5: "63839700005250000000
      = Max (set (entryTimes exampleConfig UTC [line1, lineInfo, lineBad, line2]))"
    by (simp add: e2)
  have k6: "\<exists>t \<in> set (entryTimes exampleConfig UTC [line1, lineInfo, lineBad, line2]).
      After t zeroTime"
    by (simp add: e2 After_def zeroTime_def)
  from C3_new_trigger_iff_strictly_later [OF k1 k2 k3 k4 k5] k6
  have "isMonitorMissing exampleConfig UTC log2 ?g =
      Some (if IsZero 63839700000000000000 \<or> After 63839700005250000000 63839700000000000000
            then (\<lparr>lastLogSize = 176, lastMonitorMissingTime = 63839700005250000000\<rparr>,
                  True, None)
            else (\<lparr>lastLogSize = 176, lastMonitorMissingTime = 63839700000000000000\<rparr>,
                  False, None))"
    by blast
  then have b: "isMonitorMissing exampleConfig UTC log2 ?g
      = Some (\<lparr>lastLogSize = 176, lastMonitorMissingTime = 63839700005250000000\<rparr>, True, None)"
    by (simp add: After_def)
  from a b show ?thesis by simp
qed

theorem C3_counterexample:
  "entryTimes exampleConfig UTC (logLines logYear0) = [- 17236800000000000]
   \<and> IsZero (lastMonitorMissingTime initialGlobals)
   \<and> isMonitorMissing exampleConfig UTC logYear0 initialGlobals
      = Some (\<lparr>lastLogSize = 51, lastMonitorMissingTime = zeroTime\<rparr>, False, None)
   \<and> entryTimes exampleConfig UTC (logLines logGrown) = [63839700000000000000]
   \<and> isMonitorMissing exampleConfig UTC logGrown
        \<lparr>lastLogSize = 51, lastMonitorMissingTime = 63839700000000000000\<rparr>
      = Some (\<lparr>lastLogSize = 100, lastMonitorMissingTime = 63839700000000000000\<rparr>, False, None)
   \<and> \<lparr>lastLogSize = 100, lastMonitorMissingTime = 63839700000000000000\<rparr>
       \<noteq> \<lparr>lastLogSize = 51, lastMonitorMissingTime = 63839700000000000000\<rparr>"
  by code_simp

text \<open>
  \<^bold>\<open>C4.\<close>  In the form that holds of the program: the scan starts from the zero
  time and keeps a timestamp only when it is after the value kept so far.  So \<open>latestOccurrence\<close> is the
  latest of the zero time and the timestamps of the lines that contain the
  trigger substring and parse; it is the maximum of those timestamps when one of
  them is after the zero time, and the zero time otherwise.  A line without the
  substring, or one whose timestamp does not parse, changes nothing and does not
  end the scan: the scan gives the same value as without that line.  The scan
  never panics.
\<close>

theorem C4_latestOccurrence_is_floored_maximum:
  "walkLog c loc zeroTime lines = Some (Max (insert zeroTime (set (entryTimes c loc lines))))
   \<and> ((\<exists>t \<in> set (entryTimes c loc lines). After t zeroTime) \<longrightarrow>
        walkLog c loc zeroTime lines = Some (Max (set (entryTimes c loc lines))))
   \<and> ((\<forall>t \<in> set (entryTimes c loc lines). \<not> After t zeroTime) \<longrightarrow>
        walkLog c loc zeroTime lines = Some zeroTime)
   \<and> (\<not> Contains line (MonitorIsOffLogLine c)
        \<or> (\<exists>e. parseSunshineTimestamp loc line = Some (Inl e)) \<longrightarrow>
        walkLog c loc t0 (before @ line # rest) = walkLog c loc t0 (before @ rest))"
proof (intro conjI impI)
  show m: "walkLog c loc zeroTime lines = Some (Max (insert zeroTime (set (entryTimes c loc lines))))"
    by (rule walkLog_Max)
  {
    assume "\<exists>t \<in> set (entryTimes c loc lines). After t zeroTime"
    then obtain t where t: "t \<in> set (entryTimes c loc lines)" "zeroTime < t"
      by (auto simp: After_def)
    then have ne: "set (entryTimes c loc lines) \<noteq> {}" by auto
    have "t \<le> Max (set (entryTimes c loc lines))"
      using t(1) by simp
    with t(2) have "zeroTime \<le> Max (set (entryTimes c loc lines))"
      by linarith
    then have "Max (insert zeroTime (set (entryTimes c loc lines))) = Max (set (entryTimes c loc lines))"
      using ne by (simp add: max_def)
    with m show "walkLog c loc zeroTime lines = Some (Max (set (entryTimes c loc lines)))"
      by simp
  }
  {
    assume a: "\<forall>t \<in> set (entryTimes c loc lines). \<not> After t zeroTime"
    have "Max (insert zeroTime (set (entryTimes c loc lines))) = zeroTime"
    proof (rule Max_eqI)
      show "finite (insert zeroTime (set (entryTimes c loc lines)))" by simp
      show "zeroTime \<in> insert zeroTime (set (entryTimes c loc lines))" by simp
      fix y assume "y \<in> insert zeroTime (set (entryTimes c loc lines))"
      with a show "y \<le> zeroTime" by (auto simp: After_def not_less)
    qed
    with m show "walkLog c loc zeroTime lines = Some zeroTime" by simp
  }
  {
    assume "\<not> Contains line (MonitorIsOffLogLine c)
        \<or> (\<exists>e. parseSunshineTimestamp loc line = Some (Inl e))"
    then have "entryTimes c loc [line] = []"
      by (auto simp: entryTimes_def)
    then have "entryTimes c loc (before @ line # rest) = entryTimes c loc (before @ rest)"
      using entryTimes_append [of c loc before "[line] @ rest"]
        entryTimes_append [of c loc "[line]" rest] entryTimes_append [of c loc before rest]
      by simp
    then show "walkLog c loc t0 (before @ line # rest) = walkLog c loc t0 (before @ rest)"
      by (simp add: walkLog_fold)
  }
qed

theorem C4_witness:
  "walkLog exampleConfig UTC zeroTime [line1, lineInfo, lineBad, line2]
     = Some (Max (set (entryTimes exampleConfig UTC [line1, lineInfo, lineBad, line2])))
   \<and> walkLog exampleConfig UTC zeroTime [line1, lineInfo, lineBad, line2]
     = Some 63839700005250000000
   \<and> walkLog exampleConfig UTC zeroTime ([line1] @ lineBad # [line2])
     = walkLog exampleConfig UTC zeroTime ([line1] @ [line2])"
proof -
  let ?ls = "[line1, lineInfo, lineBad, line2]"
  have e: "entryTimes exampleConfig UTC ?ls = [63839700000000000000, 63839700005250000000]"
    by code_simp
  have h1: "\<exists>t \<in> set (entryTimes exampleConfig UTC ?ls). After t zeroTime"
    by (simp add: e After_def zeroTime_def)
  have p: "parseSunshineTimestamp UTC lineBad = Some (Inl ErrMissingBrackets)" by code_simp
  then have h2: "\<not> Contains lineBad (MonitorIsOffLogLine exampleConfig)
        \<or> (\<exists>e. parseSunshineTimestamp UTC lineBad = Some (Inl e))"
    by simp
  from C4_latestOccurrence_is_floored_maximum
         [of exampleConfig UTC ?ls lineBad zeroTime "[line1]" "[line2]"] h1 h2
  have "walkLog exampleConfig UTC zeroTime ?ls = Some (Max (set (entryTimes exampleConfig UTC ?ls)))"
    and "walkLog exampleConfig UTC zeroTime ([line1] @ lineBad # [line2])
     = walkLog exampleConfig UTC zeroTime ([line1] @ [line2])"
    by blast+
  then show ?thesis by (simp add: e)
qed

theorem C4_counterexample:
  "entryTimes exampleConfig UTC [lineYear0] = [- 17236800000000000]
   \<and> walkLog exampleConfig UTC zeroTime [lineYear0] = Some zeroTime
   \<and> walkLog exampleConfig UTC zeroTime [lineYear0]
       \<noteq> Some (Max (set (entryTimes exampleConfig UTC [lineYear0])))"
  by code_simp

text \<open>
  \<^bold>\<open>C5.\<close>  A scan in which no line both contains the trigger substring and parses
  leaves \<open>latestOccurrence\<close> at the zero time; and whenever a scan ends with
  \<open>latestOccurrence\<close> at the zero time, the call sets \<open>lastMonitorMissingTime\<close> to
  the zero time (\<open>resetMonitorTracking\<close>) and returns \<open>false\<close> with no error.
\<close>

theorem C5_no_occurrence_resets:
  assumes "statSize file = Inr logSize" and "opened file = Inr content"
    and "scanTokens content (readErr file) = (lines, None)"
    and "\<forall>line \<in> set lines.
           \<not> (Contains line (MonitorIsOffLogLine c)
              \<and> (\<exists>t. parseSunshineTimestamp loc line = Some (Inr t)))"
  shows "walkLog c loc zeroTime lines = Some zeroTime
       \<and> (\<exists>g'. isMonitorMissing c loc file g = Some (g', False, None)
                \<and> lastMonitorMissingTime g' = zeroTime \<and> lastLogSize g' = logSize)"
proof -
  have "entryTimes c loc lines = []"
    using assms(4) by (auto simp: entryTimes_def split: option.splits sum.splits)
  then have w: "walkLog c loc zeroTime lines = Some zeroTime"
    by (simp add: walkLog_fold)
  have "isMonitorMissing c loc file g =
      Some (resetMonitorTracking
              ((if logSize < lastLogSize g then resetMonitorTracking g else g)\<lparr>lastLogSize := logSize\<rparr>),
            False, None)"
    using isMonitorMissing_read_ok [OF assms(1-3) w refl, of g]
    by (simp add: IsZero_def zeroTime_def)
  then show ?thesis
    by (simp add: w resetMonitorTracking_def)
qed

theorem C5_witness:
  "walkLog exampleConfig UTC zeroTime [lineInfo, lineBad] = Some zeroTime
   \<and> isMonitorMissing exampleConfig UTC logQuiet
       \<lparr>lastLogSize = 51, lastMonitorMissingTime = 63839700000000000000\<rparr>
     = Some (\<lparr>lastLogSize = 74, lastMonitorMissingTime = zeroTime\<rparr>, False, None)"
proof -
  have h1: "statSize logQuiet = Inr 74" by (simp add: logQuiet_def)
  have h2: "opened logQuiet = Inr (lineInfo @ nl @ lineBad @ nl)" by (simp add: logQuiet_def)
  have h3: "scanTokens (lineInfo @ nl @ lineBad @ nl) (readErr logQuiet) = ([lineInfo, lineBad], None)"
    by code_simp
  have c1: "\<not> Contains lineInfo (MonitorIsOffLogLine exampleConfig)" by code_simp
  have c2: "parseSunshineTimestamp UTC lineBad = Some (Inl ErrMissingBrackets)" by code_simp
  have h4: "\<forall>line \<in> set [lineInfo, lineBad].
           \<not> (Contains line (MonitorIsOffLogLine exampleConfig)
              \<and> (\<exists>t. parseSunshineTimestamp UTC line = Some (Inr t)))"
    using c1 c2 by simp
  from C5_no_occurrence_resets [OF h1 h2 h3 h4,
      of "\<lparr>lastLogSize = 51, lastMonitorMissingTime = 63839700000000000000\<rparr>"]
  show ?thesis by (cases "isMonitorMissing exampleConfig UTC logQuiet
       \<lparr>lastLogSize = 51, lastMonitorMissingTime = 63839700000000000000\<rparr>") auto
qed

text \<open>
  \<^bold>\<open>C6.\<close>  In the form that holds of the program: for every line the parser
  returns, without a panic.  It returns an error exactly when the line does not
  start with \<^verbatim>\<open>[\<close>, or holds no \<^verbatim>\<open>]\<close>, or the text between the brackets is not one
  that the layout \<^verbatim>\<open>2006-01-02 15:04:05.000\<close> accepts; and it returns a timestamp
  exactly when none of the three holds.  The first two conditions give one and
  the same error, the one about missing brackets; the third gives a parse error
  of package \<^verbatim>\<open>time\<close>, which is never that one.  What the layout accepts is a year
  of four digits, a month and a day of two, one or more spaces, an hour of one or
  two digits, a minute and a second of two, a period or a comma and three bytes
  of milliseconds, with the month, the day of that month, the hour, the minute
  and the second in range, and nothing before or after.  So every text of the
  exact form \<^verbatim>\<open>YYYY-MM-DD HH:MM:SS.mmm\<close> with values in range is accepted.  Rejected
  are: a text of fewer than 22 bytes, or whose first eleven bytes are not
  \<^verbatim>\<open>YYYY-MM-DD\<close> and a space (wrong digit counts in the date); a text with all
  digits and separators of the exact form in place but a month outside 1 to 12,
  a day that the month does not have, an hour of 24 or more, or a minute or
  second of 60 or more; and a text of the exact form followed by anything, with
  the message \<^verbatim>\<open>extra text\<close> and the quoted left-over.
\<close>

theorem C6_parse_failures:
  "parseSunshineTimestamp loc line \<noteq> None
   \<and> ((\<exists>e. parseSunshineTimestamp loc line = Some (Inl e)) \<longleftrightarrow>
        (\<not> HasPrefix line ''['' \<or> \<not> Contains line '']''
         \<or> \<not> layoutAccepts (timePortion line)))
   \<and> ((\<exists>t. parseSunshineTimestamp loc line = Some (Inr t)) \<longleftrightarrow>
        (HasPrefix line ''['' \<and> Contains line '']'' \<and> layoutAccepts (timePortion line)))
   \<and> (\<not> HasPrefix line ''['' \<or> \<not> Contains line '']'' \<longrightarrow>
        parseSunshineTimestamp loc line = Some (Inl ErrMissingBrackets))
   \<and> (HasPrefix line ''['' \<and> Contains line '']'' \<longrightarrow>
        parseSunshineTimestamp loc line = Some (ParseInLocation sunshineLayout (timePortion line) loc)
        \<and> parseSunshineTimestamp loc line \<noteq> Some (Inl ErrMissingBrackets))
   \<and> (HasPrefix line ''['' \<and> Contains line '']'' \<and> \<not> layoutAccepts (timePortion line) \<longrightarrow>
        (\<exists>a b. parseSunshineTimestamp loc line = Some (Inl (ParseError a b))))
   \<and> (HasPrefix line ''['' \<and> Contains line '']'' \<and> matchesPattern (timePortion line) \<longrightarrow>
        (\<exists>t. parseSunshineTimestamp loc line = Some (Inr t)))
   \<and> ((\<exists>t. ParseInLocation sunshineLayout s loc = Inr t) \<longleftrightarrow> layoutAccepts s)
   \<and> ((\<exists>a b. ParseInLocation sunshineLayout s loc = Inl (ParseError a b)) \<longleftrightarrow> \<not> layoutAccepts s)
   \<and> (matchesPattern s \<longrightarrow> layoutAccepts s)
   \<and> (length s < 22 \<or> \<not> list_all (isDigit s) [0, 1, 2, 3, 5, 6, 8, 9]
        \<or> s ! 4 \<noteq> CHR ''-'' \<or> s ! 7 \<noteq> CHR ''-'' \<or> s ! 10 \<noteq> CHR '' '' \<longrightarrow>
        \<not> layoutAccepts s)
   \<and> (length s = 23
        \<and> list_all (isDigit s) [0, 1, 2, 3, 5, 6, 8, 9, 11, 12, 14, 15, 17, 18, 20, 21, 22]
        \<and> s ! 4 = CHR ''-'' \<and> s ! 7 = CHR ''-'' \<and> s ! 10 = CHR '' ''
        \<and> s ! 13 = CHR '':'' \<and> s ! 16 = CHR '':'' \<and> s ! 19 = CHR ''.'' \<longrightarrow>
        (layoutAccepts s \<longleftrightarrow>
           1 \<le> num2 s 5 \<and> num2 s 5 \<le> 12
           \<and> 1 \<le> num2 s 8 \<and> num2 s 8 \<le> daysIn (num2 s 5) (num4 s 0)
           \<and> num2 s 11 < 24 \<and> num2 s 14 < 60 \<and> num2 s 17 < 60))
   \<and> (matchesPattern s \<and> x \<noteq> [] \<longrightarrow>
        \<not> layoutAccepts (s @ x)
        \<and> ParseInLocation sunshineLayout (s @ x) loc
            = Inl (ParseError '''' ('': extra text: '' @ quote x)))"
proof -
  have idx: "Index line '']'' = - 1 \<longleftrightarrow> \<not> Contains line '']''"
    using Index_cases [of line "'']''"] by (auto simp: Contains_def)
  note ret = parseSunshineTimestamp_returns [of loc line, unfolded idx]
  have acc: "(\<exists>t. ParseInLocation sunshineLayout v loc = Inr t) \<longleftrightarrow> layoutAccepts v" for v
    by (rule ParseInLocation_accepts_iff)
  have rej: "(\<exists>e. ParseInLocation sunshineLayout v loc = Inl e) \<longleftrightarrow> \<not> layoutAccepts v" for v
    by (rule ParseInLocation_rejects_iff)
  have perr: "(\<exists>a b. ParseInLocation sunshineLayout v loc = Inl (ParseError a b))
      \<longleftrightarrow> \<not> layoutAccepts v" for v
    using rej [of v] ParseInLocation_error [of sunshineLayout v loc] by blast
  have no_brackets_error:
    "ParseInLocation sunshineLayout (timePortion line) loc \<noteq> Inl ErrMissingBrackets"
    using ParseInLocation_error [of sunshineLayout "timePortion line" loc ErrMissingBrackets]
    by auto
  have c1: "parseSunshineTimestamp loc line \<noteq> None"
    by (simp add: ret)
  have c2: "(\<exists>e. parseSunshineTimestamp loc line = Some (Inl e)) \<longleftrightarrow>
        (\<not> HasPrefix line ''['' \<or> \<not> Contains line '']''
         \<or> \<not> layoutAccepts (timePortion line))"
    using rej [of "timePortion line"] by (auto simp: ret)
  have c3: "(\<exists>t. parseSunshineTimestamp loc line = Some (Inr t)) \<longleftrightarrow>
        (HasPrefix line ''['' \<and> Contains line '']'' \<and> layoutAccepts (timePortion line))"
    using acc [of "timePortion line"] by (auto simp: ret)
  have c4: "\<not> HasPrefix line ''['' \<or> \<not> Contains line '']'' \<longrightarrow>
        parseSunshineTimestamp loc line = Some (Inl ErrMissingBrackets)"
    by (auto simp: ret)
  have c5: "HasPrefix line ''['' \<and> Contains line '']'' \<longrightarrow>
        parseSunshineTimestamp loc line = Some (ParseInLocation sunshineLayout (timePortion line) loc)
        \<and> parseSunshineTimestamp loc line \<noteq> Some (Inl ErrMissingBrackets)"
    using no_brackets_error by (auto simp: ret)
  have c6: "HasPrefix line ''['' \<and> Contains line '']'' \<and> \<not> layoutAccepts (timePortion line) \<longrightarrow>
        (\<exists>a b. parseSunshineTimestamp loc line = Some (Inl (ParseError a b)))"
    using perr [of "timePortion line"] by (auto simp: ret)
  have c7: "HasPrefix line ''['' \<and> Contains line '']'' \<and> matchesPattern (timePortion line) \<longrightarrow>
        (\<exists>t. parseSunshineTimestamp loc line = Some (Inr t))"
    using matchesPattern_parses [of "timePortion line" loc] by (auto simp: ret)
  have c8: "matchesPattern s \<longrightarrow> layoutAccepts s"
    using matchesPattern_layoutAccepts by blast
  have c9: "length s < 22 \<or> \<not> list_all (isDigit s) [0, 1, 2, 3, 5, 6, 8, 9]
        \<or> s ! 4 \<noteq> CHR ''-'' \<or> s ! 7 \<noteq> CHR ''-'' \<or> s ! 10 \<noteq> CHR '' '' \<longrightarrow>
        \<not> layoutAccepts s"
    using layoutAccepts_date_part [of s] by auto
  have c10: "length s = 23
        \<and> list_all (isDigit s) [0, 1, 2, 3, 5, 6, 8, 9, 11, 12, 14, 15, 17, 18, 20, 21, 22]
        \<and> s ! 4 = CHR ''-'' \<and> s ! 7 = CHR ''-'' \<and> s ! 10 = CHR '' ''
        \<and> s ! 13 = CHR '':'' \<and> s ! 16 = CHR '':'' \<and> s ! 19 = CHR ''.'' \<longrightarrow>
        (layoutAccepts s \<longleftrightarrow>
           1 \<le> num2 s 5 \<and> num2 s 5 \<le> 12
           \<and> 1 \<le> num2 s 8 \<and> num2 s 8 \<le> daysIn (num2 s 5) (num4 s 0)
           \<and> num2 s 11 < 24 \<and> num2 s 14 < 60 \<and> num2 s 17 < 60)"
    using strict_shape_accepted_iff [of s] by blast
  have c11: "matchesPattern s \<and> x \<noteq> [] \<longrightarrow>
        \<not> layoutAccepts (s @ x)
        \<and> ParseInLocation sunshineLayout (s @ x) loc
            = Inl (ParseError '''' ('': extra text: '' @ quote x))"
    using matchesPattern_extra_text [of s x loc] rej [of "s @ x"] by auto
  from c1 c2 c3 c4 c5 c6 c7 acc [of s] perr [of s] c8 c9 c10 c11 show ?thesis
    by (intro conjI)
qed

theorem C6_witness:
  "(\<exists>t. parseSunshineTimestamp UTC line1 = Some (Inr t))
   \<and> parseSunshineTimestamp UTC lineBad = Some (Inl ErrMissingBrackets)
   \<and> (\<exists>a b. parseSunshineTimestamp UTC lineMonth13 = Some (Inl (ParseError a b)))
   \<and> parseSunshineTimestamp UTC lineMonth13 \<noteq> Some (Inl ErrMissingBrackets)
   \<and> \<not> layoutAccepts ''2024-02-30 10:00:00.000''
   \<and> \<not> layoutAccepts ''2024-01-01 24:00:00.000''
   \<and> \<not> layoutAccepts ''2024-01-01 10:60:00.000''
   \<and> \<not> layoutAccepts ''2024-01-01 10:00:60.000''
   \<and> \<not> layoutAccepts ''24-01-01 10:00:00.000''
   \<and> \<not> layoutAccepts ''2024-1-01 10:00:00.0000''
   \<and> ParseInLocation sunshineLayout (''2024-01-01 10:00:00.000'' @ '' UTC'') UTC
        = Inl (ParseError '''' ('': extra text: '' @ quote '' UTC''))"
proof -
  have p1: "HasPrefix line1 ''['' \<and> Contains line1 '']'' \<and> matchesPattern (timePortion line1)"
    by code_simp
  have p2: "\<not> HasPrefix lineBad ''['' \<or> \<not> Contains lineBad '']''"
    by code_simp
  have p3: "HasPrefix lineMonth13 ''['' \<and> Contains lineMonth13 '']''"
    by code_simp
  have p4: "timePortion lineMonth13 = ''2024-13-01 10:00:00.000''"
    by code_simp
  have shape: "length s = 23
        \<and> list_all (isDigit s) [0, 1, 2, 3, 5, 6, 8, 9, 11, 12, 14, 15, 17, 18, 20, 21, 22]
        \<and> s ! 4 = CHR ''-'' \<and> s ! 7 = CHR ''-'' \<and> s ! 10 = CHR '' ''
        \<and> s ! 13 = CHR '':'' \<and> s ! 16 = CHR '':'' \<and> s ! 19 = CHR ''.''"
    if "s \<in> {''2024-13-01 10:00:00.000'', ''2024-02-30 10:00:00.000'',
              ''2024-01-01 24:00:00.000'', ''2024-01-01 10:60:00.000'',
              ''2024-01-01 10:00:60.000''}" for s
    using that by (auto simp: isDigit_def)
  have r13: "\<not> num2 ''2024-13-01 10:00:00.000'' 5 \<le> 12" by code_simp
  have r30: "\<not> num2 ''2024-02-30 10:00:00.000'' 8
        \<le> daysIn (num2 ''2024-02-30 10:00:00.000'' 5) (num4 ''2024-02-30 10:00:00.000'' 0)"
    by code_simp
  have r24: "\<not> num2 ''2024-01-01 24:00:00.000'' 11 < 24" by code_simp
  have r60: "\<not> num2 ''2024-01-01 10:60:00.000'' 14 < 60" by code_simp
  have s60: "\<not> num2 ''2024-01-01 10:00:60.000'' 17 < 60" by code_simp
  have y2: "length ''24-01-01 10:00:00.000'' < 22" by simp
  have m1: "\<not> list_all (isDigit ''2024-1-01 10:00:00.0000'') [0, 1, 2, 3, 5, 6, 8, 9]"
    by code_simp
  have ok: "matchesPattern ''2024-01-01 10:00:00.000'' \<and> '' UTC'' \<noteq> []" by code_simp
  from C6_parse_failures [of UTC line1] p1
  have a: "\<exists>t. parseSunshineTimestamp UTC line1 = Some (Inr t)" by blast
  from C6_parse_failures [of UTC lineBad] p2
  have b: "parseSunshineTimestamp UTC lineBad = Some (Inl ErrMissingBrackets)" by blast
  from C6_parse_failures [of UTC lineMonth13 "''2024-13-01 10:00:00.000''"]
    shape [of "''2024-13-01 10:00:00.000''"] r13
  have "\<not> layoutAccepts ''2024-13-01 10:00:00.000''" by blast
  then have nm: "\<not> layoutAccepts (timePortion lineMonth13)" by (simp only: p4 simp_thms)
  from C6_parse_failures [of UTC lineMonth13 "[]" "[]"] p3 nm
  have c: "\<exists>a b. parseSunshineTimestamp UTC lineMonth13 = Some (Inl (ParseError a b))"
    and c': "parseSunshineTimestamp UTC lineMonth13 \<noteq> Some (Inl ErrMissingBrackets)"
    by blast+
  from C6_parse_failures [of UTC "[]" "''2024-02-30 10:00:00.000''"]
    shape [of "''2024-02-30 10:00:00.000''"] r30
  have d: "\<not> layoutAccepts ''2024-02-30 10:00:00.000''" by blast
  from C6_parse_failures [of UTC "[]" "''2024-01-01 24:00:00.000''"]
    shape [of "''2024-01-01 24:00:00.000''"] r24
  have e: "\<not> layoutAccepts ''2024-01-01 24:00:00.000''" by blast
  from C6_parse_failures [of UTC "[]" "''2024-01-01 10:60:00.000''"]
    shape [of "''2024-01-01 10:60:00.000''"] r60
  have f: "\<not> layoutAccepts ''2024-01-01 10:60:00.000''" by blast
  from C6_parse_failures [of UTC "[]" "''2024-01-01 10:00:60.000''"]
    shape [of "''2024-01-01 10:00:60.000''"] s60
  have g: "\<not> layoutAccepts ''2024-01-01 10:00:60.000''" by blast
  from C6_parse_failures [of UTC "[]" "''24-01-01 10:00:00.000''"] y2
  have h: "\<not> layoutAccepts ''24-01-01 10:00:00.000''" by blast
  from C6_parse_failures [of UTC "[]" "''2024-1-01 10:00:00.0000''"] m1
  have i: "\<not> layoutAccepts ''2024-1-01 10:00:00.0000''" by blast
  from C6_parse_failures [of UTC "[]" "''2024-01-01 10:00:00.000''" "'' UTC''"] ok
  have j: "ParseInLocation sunshineLayout (''2024-01-01 10:00:00.000'' @ '' UTC'') UTC
        = Inl (ParseError '''' ('': extra text: '' @ quote '' UTC''))"
    by blast
  from a b c c' d e f g h i j show ?thesis by (intro conjI)
qed

theorem C6_counterexample:
  "\<not> HasPrefix lineNoOpen ''['' \<and> Contains lineNoOpen '']''
   \<and> HasPrefix lineNoClose ''['' \<and> \<not> Contains lineNoClose '']''
   \<and> parseSunshineTimestamp UTC lineNoOpen = Some (Inl ErrMissingBrackets)
   \<and> parseSunshineTimestamp UTC lineNoClose = Some (Inl ErrMissingBrackets)
   \<and> HasPrefix lineShortHour ''['' \<and> Contains lineShortHour '']''
   \<and> timePortion lineShortHour = ''2024-01-01 1:00:00.000''
   \<and> \<not> matchesPattern (timePortion lineShortHour)
   \<and> parseSunshineTimestamp UTC lineShortHour = Some (Inr 63839667600000000000)"
  by code_simp

text \<open>
  \<^bold>\<open>C7.\<close>  In the form that holds of the program: a call that returns an error
  returns \<open>false\<close> with it.  When the error is that of \<^verbatim>\<open>os.Stat\<close> the tracking variables are as before the call.
  When \<^verbatim>\<open>os.Stat\<close> succeeded and the error comes from \<^verbatim>\<open>os.Open\<close> or from the scanner,
  \<open>lastLogSize\<close> is already the size observed, and \<open>lastMonitorMissingTime\<close> is the
  zero time if that size is smaller than the previous \<open>lastLogSize\<close> and
  unchanged otherwise.  In \<^verbatim>\<open>main\<close> the error is fatal: no later tick runs on the
  state.
\<close>

theorem C7_error_state:
  assumes "isMonitorMissing c loc file g = Some (g', new, Some err)"
  shows "\<not> new
       \<and> (case statSize file of
             Inl e \<Rightarrow> g' = g \<and> err = e
           | Inr logSize \<Rightarrow>
               g' = (if logSize < lastLogSize g then resetMonitorTracking g else g)
                      \<lparr>lastLogSize := logSize\<rparr>)
       \<and> mainLoop c loc g (file # files) = []"
  using assms
  by (auto simp: isMonitorMissing_def Let_def mainLoop.simps
      split: sum.splits prod.splits option.splits if_splits)

theorem C7_witness:
  "isMonitorMissing exampleConfig UTC
     \<lparr>statSize = Inl (PathError ''no such file or directory''), opened = Inr [], readErr = None\<rparr>
     \<lparr>lastLogSize = 176, lastMonitorMissingTime = 63839700005250000000\<rparr>
   = Some (\<lparr>lastLogSize = 176, lastMonitorMissingTime = 63839700005250000000\<rparr>, False,
           Some (PathError ''no such file or directory''))"
proof -
  let ?file = "\<lparr>statSize = Inl (PathError ''no such file or directory''), opened = Inr [],
                 readErr = None\<rparr>"
  let ?g = "\<lparr>lastLogSize = 176, lastMonitorMissingTime = 63839700005250000000\<rparr>"
  obtain g' new err where r: "isMonitorMissing exampleConfig UTC ?file ?g = Some (g', new, err)"
    using isMonitorMissing_returns by blast
  have "err = Some (PathError ''no such file or directory'')"
    using r by (simp add: isMonitorMissing_def)
  with r have r': "isMonitorMissing exampleConfig UTC ?file ?g
      = Some (g', new, Some (PathError ''no such file or directory''))"
    by simp
  from C7_error_state [OF r'] have "\<not> new \<and> g' = ?g" by simp
  with r' show ?thesis by simp
qed

theorem C7_counterexample:
  "isMonitorMissing exampleConfig UTC logUnreadable
     \<lparr>lastLogSize = 176, lastMonitorMissingTime = 63839700005250000000\<rparr>
   = Some (\<lparr>lastLogSize = 51, lastMonitorMissingTime = zeroTime\<rparr>, False,
           Some (PathError ''permission denied''))
   \<and> \<lparr>lastLogSize = 51, lastMonitorMissingTime = zeroTime\<rparr>
       \<noteq> \<lparr>lastLogSize = 176, lastMonitorMissingTime = 63839700005250000000\<rparr>"
  by (simp add: isMonitorMissing_def logUnreadable_def Let_def resetMonitorTracking_def)

text \<open>
  \<^bold>\<open>C8.\<close>  Two calls in a row on the same log file (the same size, the same
  content, the same outcome of each access): whatever the first call returns,
  the second returns \<open>false\<close>, with the error of the first if there was one, and
  leaves the tracking variables as the first call left them.
\<close>

theorem C8_second_scan_no_action:
  "\<exists>g1 new1 err1.
      isMonitorMissing c loc file g = Some (g1, new1, err1)
    \<and> isMonitorMissing c loc file g1 = Some (g1, False, err1)"
proof (cases "statSize file")
  case (Inl e)
  then show ?thesis by (auto simp: isMonitorMissing_def)
next
  case st: (Inr logSize)
  define g2 where "g2 = (if logSize < lastLogSize g then resetMonitorTracking g else g)
                          \<lparr>lastLogSize := logSize\<rparr>"
  show ?thesis
  proof (cases "opened file")
    case (Inl e)
    have "isMonitorMissing c loc file g = Some (g2, False, Some e)"
      using st Inl by (simp add: isMonitorMissing_def Let_def g2_def)
    moreover have "isMonitorMissing c loc file g2 = Some (g2, False, Some e)"
      using st Inl by (simp add: isMonitorMissing_def Let_def g2_def)
    ultimately show ?thesis by blast
  next
    case op: (Inr content)
    obtain lines scanErr where sc: "scanTokens content (readErr file) = (lines, scanErr)"
      by (cases "scanTokens content (readErr file)") auto
    obtain t where w: "walkLog c loc zeroTime lines = Some t"
      by (simp add: walkLog_fold)
    show ?thesis
    proof (cases scanErr)
      case (Some e)
      have "isMonitorMissing c loc file g = Some (g2, False, Some e)"
        using st op sc w Some by (simp add: isMonitorMissing_def Let_def g2_def)
      moreover have "isMonitorMissing c loc file g2 = Some (g2, False, Some e)"
        using st op sc w Some by (simp add: isMonitorMissing_def Let_def g2_def)
      ultimately show ?thesis by blast
    next
      case None
      note ok = isMonitorMissing_read_ok [OF st op sc [unfolded None] w]
      have size2: "lastLogSize g2 = logSize" by (simp add: g2_def)
      consider (zero) "IsZero t"
        | (new) "\<not> IsZero t"
            "IsZero (lastMonitorMissingTime g2) \<or> After t (lastMonitorMissingTime g2)"
        | (old) "\<not> IsZero t"
            "\<not> (IsZero (lastMonitorMissingTime g2) \<or> After t (lastMonitorMissingTime g2))"
        by blast
      then show ?thesis
      proof cases
        case zero
        let ?h = "resetMonitorTracking g2"
        have "isMonitorMissing c loc file g = Some (?h, False, None)"
          using ok [of g2 g] zero by (simp add: g2_def)
        moreover have "isMonitorMissing c loc file ?h = Some (?h, False, None)"
          using ok [of ?h ?h] zero size2 by (simp add: resetMonitorTracking_def)
        ultimately show ?thesis by blast
      next
        case new
        let ?h = "g2\<lparr>lastMonitorMissingTime := t\<rparr>"
        have "isMonitorMissing c loc file g = Some (?h, True, None)"
          using ok [of g2 g] new by (simp add: g2_def)
        moreover have "isMonitorMissing c loc file ?h = Some (?h, False, None)"
          using ok [of ?h ?h] new(1) size2 by (simp add: After_def)
        ultimately show ?thesis by blast
      next
        case old
        have "isMonitorMissing c loc file g = Some (g2, False, None)"
          using ok [of g2 g] old by (simp add: g2_def)
        moreover have "isMonitorMissing c loc file g2 = Some (g2, False, None)"
          using ok [of g2 g2] old size2 by simp
        ultimately show ?thesis by blast
      qed
    qed
  qed
qed

theorem C8_witness:
  "\<exists>g1 new1 err1.
      isMonitorMissing exampleConfig UTC log1 initialGlobals = Some (g1, new1, err1)
    \<and> isMonitorMissing exampleConfig UTC log1 g1 = Some (g1, False, err1)"
  using C8_second_scan_no_action [of exampleConfig UTC log1 initialGlobals] by simp

text \<open>
  \<^bold>\<open>C9.\<close>  Splitting any string on single spaces gives at least one element, so
  \<open>wakeMonitor\<close>, \<open>stopSunshine\<close> and \<open>startSunshine\<close> never panic where they
  read element 0 and the slice from 1: the command is the first element and its
  arguments are the rest, for every configured string.
\<close>

theorem C9_split_nonempty_no_panic:
  "Split s '' '' \<noteq> []
   \<and> wakeMonitor c = Some (hd (Split (WakeMonitorCommand c) '' ''),
                           tl (Split (WakeMonitorCommand c) '' ''))
   \<and> stopSunshine c = Some (hd (Split (StopSunshineCommand c) '' ''),
                            tl (Split (StopSunshineCommand c) '' ''))
   \<and> startSunshine c = Some (hd (Split (StartSunshineCommand c) '' ''),
                             tl (Split (StartSunshineCommand c) '' ''))"
  by (simp add: wakeMonitor_def stopSunshine_def startSunshine_def
      commandAndArgs_nonempty Split_space_nonempty)

theorem C9_witness:
  "Split '''' '' '' = ['''']
   \<and> wakeMonitor (exampleConfig\<lparr>WakeMonitorCommand := ''''\<rparr>) = Some ('''', [])
   \<and> stopSunshine exampleConfig = Some (''killall'', [''sunshine''])
   \<and> startSunshine exampleConfig = Some (''sunshine'', [])"
proof -
  have e1: "Split '''' '' '' = ['''']" by code_simp
  have e2: "Split (StopSunshineCommand exampleConfig) '' '' = [''killall'', ''sunshine'']"
    by code_simp
  have e3: "Split (StartSunshineCommand exampleConfig) '' '' = [''sunshine'']"
    by code_simp
  from C9_split_nonempty_no_panic [of "''''" "exampleConfig\<lparr>WakeMonitorCommand := ''''\<rparr>"]
    C9_split_nonempty_no_panic [of "''''" exampleConfig] e1 e2 e3
  show ?thesis by simp
qed

text \<open>
  \<^bold>\<open>C10.\<close>  In the form that holds of the program: with the empty string as
  trigger substring every line contains it, so the scan takes the timestamp of
  every line that parses.  \<open>latestOccurrence\<close> is the latest of the zero time and
  the timestamps of all lines of the file.  When some line parses to a timestamp
  after the zero time it is the maximum of the timestamps of all lines, and the
  call decides by comparing that maximum with \<open>lastMonitorMissingTime\<close>.  When
  no line does, also when lines parse, the scan counts as one without
  occurrence: the call returns \<open>false\<close> and stores the zero time.
\<close>

theorem C10_empty_trigger_scans_every_line:
  assumes "MonitorIsOffLogLine c = ''''"
  shows "Contains line (MonitorIsOffLogLine c)
       \<and> walkLog c loc zeroTime lines = Some (Max (insert zeroTime (set (allTimes loc lines))))
       \<and> ((\<exists>t \<in> set (allTimes loc lines). After t zeroTime) \<longrightarrow>
            walkLog c loc zeroTime lines = Some (Max (set (allTimes loc lines))))
       \<and> ((\<forall>t \<in> set (allTimes loc lines). \<not> After t zeroTime) \<longrightarrow>
            walkLog c loc zeroTime lines = Some zeroTime)
       \<and> (statSize file = Inr logSize \<longrightarrow> opened file = Inr content \<longrightarrow>
            scanTokens content (readErr file) = (lines, None) \<longrightarrow>
            (\<exists>t \<in> set (allTimes loc lines). After t zeroTime) \<longrightarrow>
            latest = Max (set (allTimes loc lines)) \<longrightarrow>
            handled = (if logSize < lastLogSize g then zeroTime else lastMonitorMissingTime g) \<longrightarrow>
            isMonitorMissing c loc file g =
              Some (if IsZero handled \<or> After latest handled
                    then (\<lparr>lastLogSize = logSize, lastMonitorMissingTime = latest\<rparr>, True, None)
                    else (\<lparr>lastLogSize = logSize, lastMonitorMissingTime = handled\<rparr>,
                          False, None)))
       \<and> (statSize file = Inr logSize \<longrightarrow> opened file = Inr content \<longrightarrow>
            scanTokens content (readErr file) = (lines, None) \<longrightarrow>
            (\<forall>t \<in> set (allTimes loc lines). \<not> After t zeroTime) \<longrightarrow>
            isMonitorMissing c loc file g =
              Some (\<lparr>lastLogSize = logSize, lastMonitorMissingTime = zeroTime\<rparr>, False, None))
       \<and> (statSize file = Inr logSize \<longrightarrow> opened file = Inr content \<longrightarrow>
            scanTokens content (readErr file) = (lines, None) \<longrightarrow>
            floored = Max (insert zeroTime (set (allTimes loc lines))) \<longrightarrow>
            g2 = (if logSize < lastLogSize g then resetMonitorTracking g else g)
                   \<lparr>lastLogSize := logSize\<rparr> \<longrightarrow>
            isMonitorMissing c loc file g =
              Some (if IsZero floored then (resetMonitorTracking g2, False, None)
                    else if IsZero (lastMonitorMissingTime g2)
                            \<or> After floored (lastMonitorMissingTime g2)
                    then (g2\<lparr>lastMonitorMissingTime := floored\<rparr>, True, None)
                    else (g2, False, None)))"
proof -
  have et: "entryTimes c loc lines = allTimes loc lines"
    using assms by (simp add: entryTimes_empty_trigger)
  have w: "walkLog c loc zeroTime lines = Some (Max (insert zeroTime (set (allTimes loc lines))))"
    by (simp add: walkLog_Max et)
  have c: "Contains line (MonitorIsOffLogLine c)"
    using assms by (simp add: Contains_empty)
  have p: "walkLog c loc zeroTime lines = Some (Max (set (allTimes loc lines)))"
      "\<not> IsZero (Max (set (allTimes loc lines)))"
    if "\<exists>t \<in> set (allTimes loc lines). After t zeroTime"
    using walkLog_present [of c loc lines] that by (simp_all add: et)
  have n: "walkLog c loc zeroTime lines = Some zeroTime"
    if "\<forall>t \<in> set (allTimes loc lines). \<not> After t zeroTime"
    using walkLog_absent [of c loc lines] that by (simp add: et)
  have dp: "isMonitorMissing c loc file g =
              Some (if IsZero handled \<or> After latest handled
                    then (\<lparr>lastLogSize = logSize, lastMonitorMissingTime = latest\<rparr>, True, None)
                    else (\<lparr>lastLogSize = logSize, lastMonitorMissingTime = handled\<rparr>,
                          False, None))"
    if st: "statSize file = Inr logSize" and op: "opened file = Inr content"
      and sc: "scanTokens content (readErr file) = (lines, None)"
      and ex: "\<exists>t \<in> set (allTimes loc lines). After t zeroTime"
      and l: "latest = Max (set (allTimes loc lines))"
      and h: "handled = (if logSize < lastLogSize g then zeroTime else lastMonitorMissingTime g)"
    using isMonitorMissing_read_ok [OF st op sc p(1) [OF ex, folded l] refl, of g]
      p(2) [OF ex, folded l] h
    by (simp add: resetMonitorTracking_def)
  have dn: "isMonitorMissing c loc file g =
              Some (\<lparr>lastLogSize = logSize, lastMonitorMissingTime = zeroTime\<rparr>, False, None)"
    if st: "statSize file = Inr logSize" and op: "opened file = Inr content"
      and sc: "scanTokens content (readErr file) = (lines, None)"
      and a: "\<forall>t \<in> set (allTimes loc lines). \<not> After t zeroTime"
    using isMonitorMissing_read_ok [OF st op sc n [OF a] refl, of g]
    by (simp add: resetMonitorTracking_def IsZero_def zeroTime_def)
  have df: "isMonitorMissing c loc file g =
              Some (if IsZero floored then (resetMonitorTracking g2, False, None)
                    else if IsZero (lastMonitorMissingTime g2)
                            \<or> After floored (lastMonitorMissingTime g2)
                    then (g2\<lparr>lastMonitorMissingTime := floored\<rparr>, True, None)
                    else (g2, False, None))"
    if st: "statSize file = Inr logSize" and op: "opened file = Inr content"
      and sc: "scanTokens content (readErr file) = (lines, None)"
      and l: "floored = Max (insert zeroTime (set (allTimes loc lines)))"
      and g2: "g2 = (if logSize < lastLogSize g then resetMonitorTracking g else g)
                   \<lparr>lastLogSize := logSize\<rparr>"
    using isMonitorMissing_read_ok [OF st op sc w g2] l by simp
  from c w p(1) n dp dn df show ?thesis by blast
qed

theorem C10_witness:
  "Contains lineInfo (MonitorIsOffLogLine emptyTriggerConfig)
   \<and> walkLog emptyTriggerConfig UTC zeroTime [lineInfo, lineBad] = Some 63839700001000000000
   \<and> isMonitorMissing emptyTriggerConfig UTC logQuiet initialGlobals
       = Some (\<lparr>lastLogSize = 74, lastMonitorMissingTime = 63839700001000000000\<rparr>, True, None)"
proof -
  let ?c = "emptyTriggerConfig"
  have h: "MonitorIsOffLogLine ?c = ''''" by (simp add: emptyTriggerConfig_def)
  have e: "allTimes UTC [lineInfo, lineBad] = [63839700001000000000]"
    by code_simp
  have ex: "\<exists>t \<in> set (allTimes UTC [lineInfo, lineBad]). After t zeroTime"
    by (simp add: e After_def zeroTime_def)
  have m: "63839700001000000000 = Max (set (allTimes UTC [lineInfo, lineBad]))"
    by (simp add: e)
  have h1: "statSize logQuiet = Inr 74" by (simp add: logQuiet_def)
  have h2: "opened logQuiet = Inr (lineInfo @ nl @ lineBad @ nl)" by (simp add: logQuiet_def)
  have h3: "scanTokens (lineInfo @ nl @ lineBad @ nl) (readErr logQuiet) = ([lineInfo, lineBad], None)"
    by code_simp
  have h4: "zeroTime = (if 74 < lastLogSize initialGlobals then zeroTime
                        else lastMonitorMissingTime initialGlobals)"
    by (simp add: initialGlobals_def)
  note t = C10_empty_trigger_scans_every_line [OF h, of lineInfo UTC "[lineInfo, lineBad]"
      logQuiet 74 "lineInfo @ nl @ lineBad @ nl" 63839700001000000000 zeroTime initialGlobals]
  from t have a: "Contains lineInfo (MonitorIsOffLogLine ?c)" by blast
  from t ex have "walkLog ?c UTC zeroTime [lineInfo, lineBad]
      = Some (Max (set (allTimes UTC [lineInfo, lineBad])))" by blast
  then have b: "walkLog ?c UTC zeroTime [lineInfo, lineBad] = Some 63839700001000000000"
    by (simp only: m [symmetric])
  from t h1 h2 h3 h4 ex m
  have "isMonitorMissing ?c UTC logQuiet initialGlobals =
      Some (if IsZero zeroTime \<or> After 63839700001000000000 zeroTime
            then (\<lparr>lastLogSize = 74, lastMonitorMissingTime = 63839700001000000000\<rparr>, True, None)
            else (\<lparr>lastLogSize = 74, lastMonitorMissingTime = zeroTime\<rparr>, False, None))"
    by blast
  then have c: "isMonitorMissing ?c UTC logQuiet initialGlobals
       = Some (\<lparr>lastLogSize = 74, lastMonitorMissingTime = 63839700001000000000\<rparr>, True, None)"
    by (simp add: IsZero_def zeroTime_def)
  from a b c show ?thesis by blast
qed

theorem C10_counterexample:
  "MonitorIsOffLogLine emptyTriggerConfig = ''''
   \<and> allTimes UTC (logLines logYear0) = [- 17236800000000000]
   \<and> IsZero (lastMonitorMissingTime initialGlobals)
   \<and> walkLog emptyTriggerConfig UTC zeroTime (logLines logYear0) = Some zeroTime
   \<and> walkLog emptyTriggerConfig UTC zeroTime (logLines logYear0)
       \<noteq> Some (Max (set (allTimes UTC (logLines logYear0))))
   \<and> isMonitorMissing emptyTriggerConfig UTC logYear0 initialGlobals
      = Some (\<lparr>lastLogSize = 51, lastMonitorMissingTime = zeroTime\<rparr>, False, None)"
  by code_simp

end
